theory Spec2Isabelle
  imports Complex_Main
begin

section \<open>Python strings\<close>

text \<open>
  A Python \<open>str\<close> is modelled as a \<open>string\<close>; one \<open>char\<close> stands for one character of
  the text. The helpers below are the string methods that
  \<^verbatim>\<open>delta_code_review_tool.py\<close> calls.
\<close>

definition startswith :: "string \<Rightarrow> char \<Rightarrow> bool" where
  \<comment> \<open>\<^verbatim>\<open>line.startswith(c)\<close> for a one-character prefix; false on the empty string.\<close>
  "startswith line c = (case line of [] \<Rightarrow> False | x # _ \<Rightarrow> x = c)"

definition is_space :: "char \<Rightarrow> bool" where
  \<comment> \<open>the characters \<^verbatim>\<open>str.isspace\<close> accepts below code point 256\<close>
  "is_space c = (c \<in> set [CHR 0x09, CHR 0x0A, CHR 0x0B, CHR 0x0C, CHR 0x0D,
                           CHR 0x1C, CHR 0x1D, CHR 0x1E, CHR 0x1F, CHR 0x20,
                           CHR 0x85, CHR 0xA0])"

definition rstrip :: "string \<Rightarrow> string" where
  \<comment> \<open>\<^verbatim>\<open>s.rstrip()\<close>: drop the trailing whitespace\<close>
  "rstrip s = rev (dropWhile is_space (rev s))"

definition digit_char :: "nat \<Rightarrow> char" where
  \<comment> \<open>only called with an argument below ten\<close>
  "digit_char d = ''0123456789'' ! d"

fun str_of_nat :: "nat \<Rightarrow> string" where
  "str_of_nat n = (if n < 10 then [digit_char n]
                   else str_of_nat (n div 10) @ [digit_char (n mod 10)])"

declare str_of_nat.simps [simp del]

definition format_line :: "nat \<Rightarrow> string \<Rightarrow> string" where
  \<comment> \<open>\<^verbatim>\<open>f"{number} {line[2:].rstrip()}"\<close>\<close>
  "format_line number line = str_of_nat number @ '' '' @ rstrip (drop 2 line)"

section \<open>The line differencer: \<^verbatim>\<open>compare_files\<close>\<close>

record align_state =
  old_lines :: "string list"
  new_lines :: "string list"
  old_line_number :: nat
  new_line_number :: nat

definition init_state :: align_state where
  "init_state = \<lparr>old_lines = [], new_lines = [], old_line_number = 1, new_line_number = 1\<rparr>"

definition compare_step :: "string \<Rightarrow> align_state \<Rightarrow> align_state" where
  \<comment> \<open>the body of \<^verbatim>\<open>for line in diff\<close>\<close>
  "compare_step line s =
     (if startswith line CHR '' '' then
        s\<lparr>new_lines := new_lines s @ [format_line (new_line_number s) line],
          old_lines := old_lines s @ [format_line (old_line_number s) line],
          new_line_number := new_line_number s + 1,
          old_line_number := old_line_number s + 1\<rparr>
      else if startswith line CHR ''-'' then
        s\<lparr>old_lines := old_lines s @ [format_line (old_line_number s) line],
          new_lines := new_lines s @ [''''],
          old_line_number := old_line_number s + 1\<rparr>
      else if startswith line CHR ''+'' then
        s\<lparr>new_lines := new_lines s @ [format_line (new_line_number s) line],
          old_lines := old_lines s @ [''''],
          new_line_number := new_line_number s + 1\<rparr>
      else s)"

fun compare_loop :: "string list \<Rightarrow> align_state \<Rightarrow> align_state" where
  "compare_loop [] s = s"
| "compare_loop (line # diff) s = compare_loop diff (compare_step line s)"

definition compare_diff :: "string list \<Rightarrow> string list \<times> string list" where
  \<comment> \<open>lines 21 to 42: the loop over the edit script and \<^verbatim>\<open>return new_lines, old_lines\<close>\<close>
  "compare_diff diff = (let s = compare_loop diff init_state in (new_lines s, old_lines s))"

definition handled :: "string \<Rightarrow> bool" where
  \<comment> \<open>the lines of the edit script that one of the three branches takes\<close>
  "handled line = (startswith line CHR '' '' \<or> startswith line CHR ''-'' \<or> startswith line CHR ''+'')"

subsection \<open>The diff primitive and the files\<close>

text \<open>
  \<^verbatim>\<open>difflib.ndiff\<close> is a library function, not code of this repository: the model takes
  it as a parameter. Its documented contract is that every line of the delta starts with a
  two-character tag and that \<^verbatim>\<open>difflib.restore\<close> gives back either input.
\<close>

type_synonym ndiff = "string list \<Rightarrow> string list \<Rightarrow> string list"

definition restore :: "string list \<Rightarrow> nat \<Rightarrow> string list" where
  \<comment> \<open>\<^verbatim>\<open>difflib.restore(delta, which)\<close>, with \<open>which\<close> 1 for the old and 2 for the new sequence\<close>
  "restore delta which =
     (let tag = (if which = 1 then ''- '' else ''+ '')
      in map (drop 2) (filter (\<lambda>line. take 2 line = ''  '' \<or> take 2 line = tag) delta))"

definition well_tagged :: "string list \<Rightarrow> bool" where
  "well_tagged delta = list_all (\<lambda>line. take 2 line \<in> set [''  '', ''- '', ''+ '', ''? '']) delta"

datatype error = FileNotFoundError | UnicodeDecodeError | ValueError | TypeError | OSError | EOFError
  | IllegalCharacterError

datatype cell_value = Str string | Num int | NoValue

datatype fill = green_fill | red_fill

record cell =
  cvalue :: cell_value
  centered :: bool
  cfill :: "fill option"

record sheet_row =
  new_number_cell :: cell
  new_content_cell :: cell
  old_number_cell :: cell
  old_content_cell :: cell

record workbook =
  title :: string
  rows :: "sheet_row list"
  widths :: "rat list"

datatype file_content = TextFile "string list" | BinaryFile | Spreadsheet workbook

record world =
  files :: "string \<rightharpoonup> file_content"
  can_create :: "string \<Rightarrow> bool"

definition read_file :: "world \<Rightarrow> string \<Rightarrow> error + string list" where
  \<comment> \<open>\<open>TextFile ls\<close> is a file that decodes as text and whose \<^verbatim>\<open>read().splitlines()\<close> is \<open>ls\<close>\<close>
  "read_file w filename =
     (case files w filename of
        None \<Rightarrow> Inl FileNotFoundError
      | Some (TextFile ls) \<Rightarrow> Inr ls
      | Some _ \<Rightarrow> Inl UnicodeDecodeError)"

definition compare_files :: "ndiff \<Rightarrow> world \<Rightarrow> string \<Rightarrow> string \<Rightarrow> error + string list \<times> string list" where
  \<comment> \<open>the arguments of \<^verbatim>\<open>ndiff\<close> are evaluated left to right: the old file is read first\<close>
  "compare_files ndiff w new_file old_file =
     (case read_file w old_file of
        Inl e \<Rightarrow> Inl e
      | Inr old \<Rightarrow>
          (case read_file w new_file of
             Inl e \<Rightarrow> Inl e
           | Inr new \<Rightarrow> Inr (compare_diff (ndiff old new))))"

section \<open>The report renderer: \<^verbatim>\<open>create_excel\<close>\<close>

definition split1 :: "string \<Rightarrow> string list" where
  \<comment> \<open>\<^verbatim>\<open>s.split(' ', 1)\<close>: cut at the first space, if there is one\<close>
  "split1 s =
     (if CHR '' '' \<in> set s
      then [takeWhile (\<lambda>c. c \<noteq> CHR '' '') s, tl (dropWhile (\<lambda>c. c \<noteq> CHR '' '') s)]
      else [s])"

definition unpack2 :: "string list \<Rightarrow> error + string \<times> string" where
  \<comment> \<open>\<^verbatim>\<open>a, b = parts\<close> raises ValueError unless there are exactly two parts\<close>
  "unpack2 parts = (case parts of [a, b] \<Rightarrow> Inr (a, b) | _ \<Rightarrow> Inl ValueError)"

definition split_line :: "string \<Rightarrow> error + string \<times> string" where
  \<comment> \<open>\<^verbatim>\<open>line.split(' ', 1) if line else ('', '')\<close>, unpacked into number and content\<close>
  "split_line line = (if line \<noteq> [] then unpack2 (split1 line) else Inr ([], []))"

definition illegal_character :: "char \<Rightarrow> bool" where
  \<comment> \<open>the control characters that the spreadsheet library refuses in a text value:
      00 to 08, 0B, 0C and 0E to 1F\<close>
  "illegal_character c =
     (c \<in> set [CHR 0x00, CHR 0x01, CHR 0x02, CHR 0x03, CHR 0x04, CHR 0x05, CHR 0x06, CHR 0x07,
                CHR 0x08, CHR 0x0B, CHR 0x0C, CHR 0x0E, CHR 0x0F, CHR 0x10, CHR 0x11, CHR 0x12,
                CHR 0x13, CHR 0x14, CHR 0x15, CHR 0x16, CHR 0x17, CHR 0x18, CHR 0x19, CHR 0x1A,
                CHR 0x1B, CHR 0x1C, CHR 0x1D, CHR 0x1E, CHR 0x1F])"

definition check_string :: "string \<Rightarrow> error + string" where
  \<comment> \<open>what \<^verbatim>\<open>ws.cell(row, column, value)\<close> does to a text value before storing it
      (openpyxl's \<^verbatim>\<open>Cell.check_string\<close>): the text is cut at 32767 characters, and an
      illegal character in what remains raises IllegalCharacterError\<close>
  "check_string v =
     (let v' = take 32767 v
      in if list_ex illegal_character v' then Inl IllegalCharacterError else Inr v')"

definition write_row :: "string \<Rightarrow> string \<Rightarrow> error + sheet_row" where
  \<comment> \<open>one pass of the loop of line 63: the two entries are split, the four cells are
      written in the order of the columns, then at most one of them is filled; the fills
      test the content strings of lines 64 and 65\<close>
  "write_row line_new line_old =
     (case split_line line_new of
        Inl e \<Rightarrow> Inl e
      | Inr (line_new_number, line_new_content) \<Rightarrow>
     (case split_line line_old of
        Inl e \<Rightarrow> Inl e
      | Inr (line_old_number, line_old_content) \<Rightarrow>
     (case check_string line_new_number of
        Inl e \<Rightarrow> Inl e
      | Inr v1 \<Rightarrow>
     (case check_string line_new_content of
        Inl e \<Rightarrow> Inl e
      | Inr v2 \<Rightarrow>
     (case check_string line_old_number of
        Inl e \<Rightarrow> Inl e
      | Inr v3 \<Rightarrow>
     (case check_string line_old_content of
        Inl e \<Rightarrow> Inl e
      | Inr v4 \<Rightarrow>
         (let r = \<lparr>new_number_cell = \<lparr>cvalue = Str v1, centered = True, cfill = None\<rparr>,
                   new_content_cell = \<lparr>cvalue = Str v2, centered = False, cfill = None\<rparr>,
                   old_number_cell = \<lparr>cvalue = Str v3, centered = True, cfill = None\<rparr>,
                   old_content_cell = \<lparr>cvalue = Str v4, centered = False, cfill = None\<rparr>\<rparr>
          in if line_new_content \<noteq> [] \<and> \<not> line_old_content \<noteq> [] then
               Inr (r\<lparr>new_content_cell := (new_content_cell r)\<lparr>cfill := Some green_fill\<rparr>\<rparr>)
             else if line_old_content \<noteq> [] \<and> \<not> line_new_content \<noteq> [] then
               Inr (r\<lparr>old_content_cell := (old_content_cell r)\<lparr>cfill := Some red_fill\<rparr>\<rparr>)
             else Inr r)))))))"

fun write_rows :: "(string \<times> string) list \<Rightarrow> error + sheet_row list" where
  "write_rows [] = Inr []"
| "write_rows ((line_new, line_old) # ps) =
     (case write_row line_new line_old of
        Inl e \<Rightarrow> Inl e
      | Inr r \<Rightarrow> (case write_rows ps of Inl e \<Rightarrow> Inl e | Inr rs \<Rightarrow> Inr (r # rs)))"

definition len :: "cell_value \<Rightarrow> error + nat" where
  \<comment> \<open>\<^verbatim>\<open>len(cell.value)\<close>: a TypeError for a value that is not text\<close>
  "len v = (case v of Str s \<Rightarrow> Inr (length s) | _ \<Rightarrow> Inl TypeError)"

definition ws_columns :: "sheet_row list \<Rightarrow> (nat \<times> cell list) list" where
  \<comment> \<open>\<^verbatim>\<open>ws.columns\<close>: nothing for an empty sheet, else the four columns top to bottom,
      each with its column number\<close>
  "ws_columns rs =
     (if rs = [] then []
      else [(1, map new_number_cell rs), (2, map new_content_cell rs),
            (3, map old_number_cell rs), (4, map old_content_cell rs)])"

definition measure_cell :: "nat \<Rightarrow> nat list \<Rightarrow> cell \<Rightarrow> nat list" where
  \<comment> \<open>the \<^verbatim>\<open>try\<close> block of line 80; \<open>column\<close> is between 1 and 4, so the index is in range\<close>
  "measure_cell column column_widths c =
     (case len (cvalue c) of
        Inl _ \<Rightarrow> column_widths
      | Inr n \<Rightarrow> column_widths[column - 1 := max (column_widths ! (column - 1)) n])"

definition measure_columns :: "sheet_row list \<Rightarrow> nat list" where
  "measure_columns rs =
     foldl (\<lambda>column_widths (column, cells). foldl (measure_cell column) column_widths cells)
       [0, 0, 0, 0] (ws_columns rs)"

fun bitlen :: "nat \<Rightarrow> nat" where
  "bitlen n = (if n = 0 then 0 else Suc (bitlen (n div 2)))"

declare bitlen.simps [simp del]

definition round_half_even :: "nat \<Rightarrow> nat \<Rightarrow> nat" where
  \<comment> \<open>\<open>p / 2 ^ k\<close> rounded to the nearest integer, a tie going to the even one\<close>
  "round_half_even p k =
     (let q = p div 2 ^ k; r = p mod 2 ^ k
      in if 2 * r < 2 ^ k then q
         else if 2 ^ k < 2 * r then q + 1
         else if even q then q else q + 1)"

definition round53 :: "nat \<Rightarrow> nat" where
  \<comment> \<open>a natural number rounded to 53 significant bits, the precision of a Python float\<close>
  "round53 p = (let k = bitlen p - 53 in round_half_even p k * 2 ^ k)"

definition times_1_2 :: "nat \<Rightarrow> rat" where
  \<comment> \<open>the Python float \<^verbatim>\<open>width * 1.2\<close>, as the rational number it is: \<open>width\<close> becomes a
      float, the literal \<^verbatim>\<open>1.2\<close> is the float \<open>5404319552844595 / 2 ^ 52\<close>, and their product
      is rounded to the nearest float. (A width beyond the range of floats, which no text
      reaches, would raise OverflowError.)\<close>
  "times_1_2 width = of_nat (round53 (round53 width * 5404319552844595)) / 2 ^ 52"

definition finish_workbook :: "sheet_row list \<Rightarrow> workbook" where
  \<comment> \<open>lines 76 to 86; a width is kept as the exact value of the float that line 86 stores\<close>
  "finish_workbook rs =
     \<lparr>title = ''File Comparison'', rows = rs,
      widths = map times_1_2 (measure_columns rs)\<rparr>"

definition save :: "world \<Rightarrow> workbook \<Rightarrow> string \<Rightarrow> error + world" where
  \<comment> \<open>\<^verbatim>\<open>wb.save(output_file)\<close>: fails when the destination cannot be created\<close>
  "save w wb output_file =
     (if can_create w output_file
      then Inr (w\<lparr>files := (files w)(output_file \<mapsto> Spreadsheet wb)\<rparr>)
      else Inl OSError)"

definition create_excel :: "world \<Rightarrow> string list \<Rightarrow> string list \<Rightarrow> string \<Rightarrow> error + world" where
  "create_excel w new_ls old_ls output_file =
     (case write_rows (zip new_ls old_ls) of
        Inl e \<Rightarrow> Inl e
      | Inr rs \<Rightarrow> save w (finish_workbook rs) output_file)"

section \<open>The entry point: \<^verbatim>\<open>main\<close>\<close>

definition dquote :: char where
  "dquote = CHR 0x22"

definition strip_quotes :: "string \<Rightarrow> string" where
  \<comment> \<open>\<^verbatim>\<open>s.strip('"')\<close>\<close>
  "strip_quotes s = rev (dropWhile (\<lambda>c. c = dquote) (rev (dropWhile (\<lambda>c. c = dquote) s)))"

definition input :: "string list \<Rightarrow> error + string \<times> string list" where
  \<comment> \<open>\<^verbatim>\<open>input(prompt)\<close>: the next line of standard input, EOFError when there is none\<close>
  "input stdin = (case stdin of [] \<Rightarrow> Inl EOFError | l # ls \<Rightarrow> Inr (l, ls))"

definition main :: "ndiff \<Rightarrow> world \<Rightarrow> string list \<Rightarrow> (error + string) \<times> world" where
  \<comment> \<open>the result is the exception that ends the run or the message printed, with the files
      as the run leaves them\<close>
  "main ndiff w stdin =
     (case input stdin of
        Inl e \<Rightarrow> (Inl e, w)
      | Inr (l1, stdin1) \<Rightarrow>
     (case input stdin1 of
        Inl e \<Rightarrow> (Inl e, w)
      | Inr (l2, stdin2) \<Rightarrow>
     (case input stdin2 of
        Inl e \<Rightarrow> (Inl e, w)
      | Inr (output_file, stdin3) \<Rightarrow>
     (let new_file = strip_quotes l1; old_file = strip_quotes l2
      in case compare_files ndiff w new_file old_file of
           Inl e \<Rightarrow> (Inl e, w)
         | Inr (new_ls, old_ls) \<Rightarrow>
             (case create_excel w new_ls old_ls output_file of
                Inl e \<Rightarrow> (Inl e, w)
              | Inr w' \<Rightarrow>
                  (Inr (''Comparison Excel file '' @ [CHR 0x27] @ output_file @ [CHR 0x27]
                        @ '' created successfully.''), w'))))))"

section \<open>Notions used to state the properties\<close>

text \<open>
  A line of the edit script counts on the new side when it is unchanged or inserted, and on
  the old side when it is unchanged or deleted. \<open>new_entry ops i\<close> and \<open>old_entry ops i\<close>
  are the two sides of the row that the expansion rule gives for the operation \<open>ops ! i\<close>:
  a gap, or the number reached by counting from 1 the earlier operations of that side,
  followed by the text.
\<close>

definition on_new :: "string \<Rightarrow> bool" where
  "on_new line = (startswith line CHR '' '' \<or> startswith line CHR ''+'')"

definition on_old :: "string \<Rightarrow> bool" where
  "on_old line = (startswith line CHR '' '' \<or> startswith line CHR ''-'')"

definition new_entry :: "string list \<Rightarrow> nat \<Rightarrow> string" where
  "new_entry ops i =
     (if startswith (ops ! i) CHR ''-'' then []
      else format_line (1 + length (filter on_new (take i ops))) (ops ! i))"

definition old_entry :: "string list \<Rightarrow> nat \<Rightarrow> string" where
  "old_entry ops i =
     (if startswith (ops ! i) CHR ''+'' then []
      else format_line (1 + length (filter on_old (take i ops))) (ops ! i))"

definition numbered :: "nat \<Rightarrow> string list \<Rightarrow> string list" where
  \<comment> \<open>the lines \<open>ls\<close>, each stripped of its trailing whitespace and preceded by its number,
      counting from \<open>n\<close>\<close>
  "numbered n ls =
     map (\<lambda>(k, line). str_of_nat k @ '' '' @ rstrip line) (zip [n..<n + length ls] ls)"

definition text_max :: "nat \<Rightarrow> cell list \<Rightarrow> nat" where
  \<comment> \<open>the running maximum after measuring the cells \<open>cs\<close>, starting from \<open>m\<close>\<close>
  "text_max m cs =
     foldl (\<lambda>m c. case cvalue c of Str s \<Rightarrow> max m (length s) | _ \<Rightarrow> m) m cs"

definition max_text_length :: "nat \<Rightarrow> cell list \<Rightarrow> bool" where
  \<comment> \<open>\<open>m\<close> is the greatest length of a text value among the cells \<open>cs\<close>, or 0 when there
      is none: no text is longer, and some text has length \<open>m\<close> unless \<open>m\<close> is 0\<close>
  "max_text_length m cs =
     (list_all (\<lambda>c. case cvalue c of Str s \<Rightarrow> length s \<le> m | _ \<Rightarrow> True) cs
      \<and> (m = 0 \<or> list_ex (\<lambda>c. case cvalue c of Str s \<Rightarrow> length s = m | _ \<Rightarrow> False) cs))"

subsection \<open>Sample inputs\<close>

text \<open>
  A small stand-in for the diff primitive (common prefix, deletions, insertions, common
  suffix) and a file system with two text files; they serve to instantiate the theorems
  at concrete inputs.
\<close>

fun common_prefix :: "string list \<Rightarrow> string list \<Rightarrow> string list" where
  "common_prefix (x # xs) (y # ys) = (if x = y then x # common_prefix xs ys else [])"
| "common_prefix _ _ = []"

definition sample_ndiff :: ndiff where
  "sample_ndiff old new =
     (let p = common_prefix old new;
          old' = drop (length p) old;
          new' = drop (length p) new;
          q = rev (common_prefix (rev old') (rev new'))
      in map (\<lambda>l. ''  '' @ l) p
         @ map (\<lambda>l. ''- '' @ l) (take (length old' - length q) old')
         @ map (\<lambda>l. ''+ '' @ l) (take (length new' - length q) new')
         @ map (\<lambda>l. ''  '' @ l) q)"

definition sample_world :: world where
  "sample_world =
     \<lparr>files = [''old.txt'' \<mapsto> TextFile [''a'', ''b'', ''c''],
               ''new.txt'' \<mapsto> TextFile [''a'', ''x'', ''c'']],
      can_create = (\<lambda>path. True)\<rparr>"

definition blank_world :: world where
  \<comment> \<open>the old file has a line of two spaces that the new file lacks\<close>
  "blank_world =
     \<lparr>files = [''old.txt'' \<mapsto> TextFile [''a'', ''  '', ''c''],
               ''new.txt'' \<mapsto> TextFile [''a'', ''c'']],
      can_create = (\<lambda>path. True)\<rparr>"

section \<open>Auxiliary lemmas\<close>

lemma str_of_nat_nonempty: "str_of_nat n \<noteq> []"
  by (subst str_of_nat.simps) simp

lemma digit_char_no_space: "d < 10 \<Longrightarrow> digit_char d \<noteq> CHR '' ''"
proof -
  assume "d < 10"
  then have "d \<in> set [0,1,2,3,4,5,6,7,8,9]" by auto
  then show ?thesis by (auto simp: digit_char_def)
qed

lemma str_of_nat_no_space: "CHR '' '' \<notin> set (str_of_nat n)"
proof (induction n rule: str_of_nat.induct)
  case (1 n)
  show ?case
  proof (cases "n < 10")
    case True
    then show ?thesis using digit_char_no_space [of n] by (subst str_of_nat.simps) auto
  next
    case False
    have "n mod 10 < 10" by simp
    with False 1 digit_char_no_space [of "n mod 10"] show ?thesis
      by (subst str_of_nat.simps) auto
  qed
qed

lemma format_line_nonempty: "format_line n l \<noteq> []"
  by (simp add: format_line_def str_of_nat_nonempty)

lemma split_line_format: "split_line (format_line n l) = Inr (str_of_nat n, rstrip (drop 2 l))"
proof -
  have a: "takeWhile (\<lambda>c. c \<noteq> CHR '' '') (str_of_nat n @ CHR '' '' # t) = str_of_nat n" for t
    using str_of_nat_no_space [of n] by (subst takeWhile_append2) auto
  have b: "dropWhile (\<lambda>c. c \<noteq> CHR '' '') (str_of_nat n @ CHR '' '' # t) = CHR '' '' # t" for t
    using str_of_nat_no_space [of n] by (subst dropWhile_append2) auto
  show ?thesis
    using a b by (simp add: split_line_def split1_def unpack2_def format_line_def str_of_nat_nonempty)
qed

lemma compare_loop_snoc: "compare_loop (diff @ [l]) s = compare_step l (compare_loop diff s)"
  by (induction diff arbitrary: s) auto

lemma startswith_excl:
  "startswith l CHR '' '' \<Longrightarrow> \<not> startswith l CHR ''-'' \<and> \<not> startswith l CHR ''+''"
  "startswith l CHR ''-'' \<Longrightarrow> \<not> startswith l CHR '' '' \<and> \<not> startswith l CHR ''+''"
  "startswith l CHR ''+'' \<Longrightarrow> \<not> startswith l CHR '' '' \<and> \<not> startswith l CHR ''-''"
  by (auto simp: startswith_def split: list.splits)

lemma compare_step_unhandled: "\<not> handled l \<Longrightarrow> compare_step l s = s"
  by (simp add: handled_def compare_step_def)

lemma entry_prefix:
  "i < length ops \<Longrightarrow> new_entry (ops @ [l]) i = new_entry ops i"
  "i < length ops \<Longrightarrow> old_entry (ops @ [l]) i = old_entry ops i"
  by (simp_all add: new_entry_def old_entry_def nth_append)

lemma compare_loop_inv:
  fixes diff :: "string list"
  defines "s \<equiv> compare_loop diff init_state" and "ops \<equiv> filter handled diff"
  shows "new_lines s = map (new_entry ops) [0..<length ops]
       \<and> old_lines s = map (old_entry ops) [0..<length ops]
       \<and> new_line_number s = 1 + length (filter on_new ops)
       \<and> old_line_number s = 1 + length (filter on_old ops)"
  unfolding s_def ops_def
proof (induction diff rule: rev_induct)
  case Nil
  show ?case by (simp add: init_state_def)
next
  case (snoc l diff)
  let ?s = "compare_loop diff init_state"
  let ?ops = "filter handled diff"
  show ?case
  proof (cases "handled l")
    case False
    with snoc show ?thesis
      by (simp add: compare_loop_snoc compare_step_unhandled)
  next
    case True
    have pre: "map (new_entry (?ops @ [l])) [0..<length ?ops] = map (new_entry ?ops) [0..<length ?ops]"
              "map (old_entry (?ops @ [l])) [0..<length ?ops] = map (old_entry ?ops) [0..<length ?ops]"
      by (simp_all add: entry_prefix)
    from True consider (u) "startswith l CHR '' ''" | (d) "startswith l CHR ''-''" | (i) "startswith l CHR ''+''"
      by (auto simp: handled_def)
    then show ?thesis
    proof cases
      case u
      with snoc True pre startswith_excl(1) [OF u] show ?thesis
        by (simp add: compare_loop_snoc compare_step_def new_entry_def old_entry_def on_new_def on_old_def)
    next
      case d
      with snoc True pre startswith_excl(2) [OF d] show ?thesis
        by (simp add: compare_loop_snoc compare_step_def new_entry_def old_entry_def on_new_def on_old_def)
    next
      case i
      with snoc True pre startswith_excl(3) [OF i] show ?thesis
        by (simp add: compare_loop_snoc compare_step_def new_entry_def old_entry_def on_new_def on_old_def)
    qed
  qed
qed

lemma compare_files_read:
  "read_file w old_file = Inr old \<Longrightarrow> read_file w new_file = Inr new \<Longrightarrow>
   compare_files ndiff w new_file old_file = Inr (compare_diff (ndiff old new))"
  by (simp add: compare_files_def)

lemma compare_files_Inr:
  "compare_files ndiff w new_file old_file = Inr r \<Longrightarrow>
   \<exists>old new. read_file w old_file = Inr old \<and> read_file w new_file = Inr new
     \<and> r = compare_diff (ndiff old new)"
  by (auto simp: compare_files_def split: sum.splits)

lemma compare_diff_rows:
  "compare_diff diff = (map (new_entry (filter handled diff)) [0..<length (filter handled diff)],
                        map (old_entry (filter handled diff)) [0..<length (filter handled diff)])"
  using compare_loop_inv [of diff] by (simp add: compare_diff_def Let_def)

lemmas sample_eval = sample_world_def sample_ndiff_def compare_files_def read_file_def
  compare_diff_def init_state_def compare_step_def startswith_def format_line_def rstrip_def
  is_space_def str_of_nat.simps digit_char_def Let_def

lemma sample_compare_files:
  "compare_files sample_ndiff sample_world ''new.txt'' ''old.txt''
     = Inr ([''1 a'', [], ''2 x'', ''3 c''], [''1 a'', ''2 b'', [], ''3 c''])"
  by (simp add: sample_eval)

section \<open>Properties of the line differencer\<close>

text \<open>
  C9. Whenever \<^verbatim>\<open>compare_files\<close> returns, its two lists have the same length, so the
  \<^verbatim>\<open>zip\<close> of the renderer keeps every entry. One pass of the loop over a line that a
  branch handles appends exactly one element to each list; a line that no branch handles,
  such as an intraline hint starting with \<open>?\<close>, leaves both lists as they are.
\<close>

theorem compare_files_equal_length:
  assumes "compare_files ndiff w new_file old_file = Inr (nl, ol)"
  shows "length nl = length ol \<and> length (zip nl ol) = length nl \<and> length (zip nl ol) = length ol
       \<and> (\<forall>line s. handled line \<longrightarrow>
             length (new_lines (compare_step line s)) = length (new_lines s) + 1
           \<and> length (old_lines (compare_step line s)) = length (old_lines s) + 1)
       \<and> (\<forall>line s. \<not> handled line \<longrightarrow> compare_step line s = s)
       \<and> (\<forall>line. startswith line CHR ''?'' \<longrightarrow> \<not> handled line)"
proof -
  from assms obtain old new where "(nl, ol) = compare_diff (ndiff old new)"
    by (blast dest: compare_files_Inr)
  then have len: "length nl = length ol"
    by (simp add: compare_diff_rows)
  have app: "length (new_lines (compare_step line s)) = length (new_lines s) + 1
           \<and> length (old_lines (compare_step line s)) = length (old_lines s) + 1"
    if "handled line" for line s
    using that by (auto simp: handled_def compare_step_def)
  have q: "\<not> handled line" if "startswith line CHR ''?''" for line
    using that by (auto simp: handled_def startswith_def split: list.splits)
  from len app q show ?thesis
    by (simp add: compare_step_unhandled)
qed

theorem compare_files_equal_length_witness:
  "compare_files sample_ndiff sample_world ''new.txt'' ''old.txt''
     = Inr ([''1 a'', [], ''2 x'', ''3 c''], [''1 a'', ''2 b'', [], ''3 c''])
   \<and> length [''1 a'', [], ''2 x'', ''3 c''] = length [''1 a'', ''2 b'', [], ''3 c'']
   \<and> handled ''+ x''
   \<and> length (new_lines (compare_step ''+ x'' init_state)) = 1
   \<and> length (old_lines (compare_step ''+ x'' init_state)) = 1
   \<and> startswith ''? ^'' CHR ''?''
   \<and> compare_step ''? ^'' init_state = init_state"
proof -
  note t = compare_files_equal_length [OF sample_compare_files]
  have a: "handled ''+ x''"
    by (simp add: handled_def startswith_def)
  have b: "startswith ''? ^'' CHR ''?''"
    by (simp add: startswith_def)
  from t b have c: "\<not> handled ''? ^''"
    by blast
  from t a have "length (new_lines (compare_step ''+ x'' init_state)) = length (new_lines init_state) + 1"
    and "length (old_lines (compare_step ''+ x'' init_state)) = length (old_lines init_state) + 1"
    by blast+
  moreover from t c have "compare_step ''? ^'' init_state = init_state"
    by blast
  ultimately show ?thesis
    using a b sample_compare_files by (simp add: init_state_def)
qed

lemma handled_count:
  "length (filter handled diff)
     = length (filter (\<lambda>l. startswith l CHR '' '') diff)
     + length (filter (\<lambda>l. startswith l CHR ''-'') diff)
     + length (filter (\<lambda>l. startswith l CHR ''+'') diff)"
proof (induction diff)
  case Nil
  show ?case by simp
next
  case (Cons l diff)
  consider (u) "startswith l CHR '' ''" | (d) "startswith l CHR ''-''"
    | (i) "startswith l CHR ''+''" | (n) "\<not> handled l"
    by (auto simp: handled_def)
  then show ?case
  proof cases
    case u
    with Cons startswith_excl(1) [OF u] show ?thesis by (simp add: handled_def)
  next
    case d
    with Cons startswith_excl(2) [OF d] show ?thesis by (simp add: handled_def)
  next
    case i
    with Cons startswith_excl(3) [OF i] show ?thesis by (simp add: handled_def)
  next
    case n
    with Cons show ?thesis by (simp add: handled_def)
  qed
qed

lemma compare_diff_nth:
  assumes "compare_diff diff = (nl, ol)" and "ops = filter handled diff"
  shows "length nl = length ops" and "length ol = length ops"
    and "i < length ops \<Longrightarrow> nl ! i = new_entry ops i"
    and "i < length ops \<Longrightarrow> ol ! i = old_entry ops i"
  using assms by (auto simp: compare_diff_rows)

lemma handled_filter: "i < length (filter handled diff) \<Longrightarrow> handled (filter handled diff ! i)"
  using nth_mem [of i "filter handled diff"] by simp

lemma sample_read:
  "read_file sample_world ''old.txt'' = Inr [''a'', ''b'', ''c'']"
  "read_file sample_world ''new.txt'' = Inr [''a'', ''x'', ''c'']"
  by (simp_all add: sample_eval)

lemma sample_script:
  "sample_ndiff [''a'', ''b'', ''c''] [''a'', ''x'', ''c''] = [''  a'', ''- b'', ''+ x'', ''  c'']"
  by (simp add: sample_eval)

lemma sample_ops:
  "filter handled (sample_ndiff [''a'', ''b'', ''c''] [''a'', ''x'', ''c''])
     = [''  a'', ''- b'', ''+ x'', ''  c'']"
  by (simp add: sample_script handled_def startswith_def)

text \<open>
  C2. When both files are read, \<^verbatim>\<open>compare_files\<close> returns as many rows as the edit script
  has unchanged, deleted and inserted lines together. Row \<open>i\<close> comes from the \<open>i\<close>-th such
  line alone: its new side is a gap exactly for a deletion, its old side is a gap exactly
  for an insertion, and a side that is not a gap carries the text of that one line.
\<close>

theorem row_count:
  fixes ndiff :: ndiff
  assumes "read_file w old_file = Inr old" and "read_file w new_file = Inr new"
  defines "diff \<equiv> ndiff old new"
  defines "ops \<equiv> filter handled diff"
  shows "\<exists>nl ol. compare_files ndiff w new_file old_file = Inr (nl, ol)
       \<and> length nl = length (filter (\<lambda>l. startswith l CHR '' '') diff)
                    + length (filter (\<lambda>l. startswith l CHR ''-'') diff)
                    + length (filter (\<lambda>l. startswith l CHR ''+'') diff)
       \<and> length ol = length nl
       \<and> length ops = length nl
       \<and> (\<forall>i<length ops.
             (nl ! i = [] \<longleftrightarrow> startswith (ops ! i) CHR ''-'')
           \<and> (ol ! i = [] \<longleftrightarrow> startswith (ops ! i) CHR ''+'')
           \<and> (nl ! i \<noteq> [] \<longrightarrow> (\<exists>n. nl ! i = format_line n (ops ! i)))
           \<and> (ol ! i \<noteq> [] \<longrightarrow> (\<exists>n. ol ! i = format_line n (ops ! i))))"
proof -
  obtain nl ol where r: "compare_diff diff = (nl, ol)"
    by (cases "compare_diff diff")
  from assms(1,2) r have c: "compare_files ndiff w new_file old_file = Inr (nl, ol)"
    by (simp add: compare_files_read diff_def)
  have o: "ops = filter handled diff"
    by (simp add: ops_def)
  note n = compare_diff_nth [OF r o]
  have rows: "(nl ! i = [] \<longleftrightarrow> startswith (ops ! i) CHR ''-'')
           \<and> (ol ! i = [] \<longleftrightarrow> startswith (ops ! i) CHR ''+'')
           \<and> (nl ! i \<noteq> [] \<longrightarrow> (\<exists>n. nl ! i = format_line n (ops ! i)))
           \<and> (ol ! i \<noteq> [] \<longrightarrow> (\<exists>n. ol ! i = format_line n (ops ! i)))"
    if "i < length ops" for i
    using that n(3,4) [OF that]
    by (auto simp: new_entry_def old_entry_def format_line_nonempty)
  have cnt: "length nl = length (filter (\<lambda>l. startswith l CHR '' '') diff)
                    + length (filter (\<lambda>l. startswith l CHR ''-'') diff)
                    + length (filter (\<lambda>l. startswith l CHR ''+'') diff)"
    using n(1) o by (simp add: handled_count)
  show ?thesis
    apply (rule exI [of _ nl], rule exI [of _ ol])
    apply (intro conjI allI impI)
    using c cnt n(1,2) rows by simp_all
qed

lemma sample_handled:
  "filter handled [''  a'', ''- b'', ''+ x'', ''  c''] = [''  a'', ''- b'', ''+ x'', ''  c'']"
  by (simp add: handled_def startswith_def)

theorem row_count_witness:
  "read_file sample_world ''old.txt'' = Inr [''a'', ''b'', ''c'']
   \<and> read_file sample_world ''new.txt'' = Inr [''a'', ''x'', ''c'']
   \<and> (\<exists>nl ol. compare_files sample_ndiff sample_world ''new.txt'' ''old.txt'' = Inr (nl, ol)
        \<and> length nl = 2 + 1 + 1 \<and> length ol = 4
        \<and> nl ! 1 = [] \<and> ol ! 1 \<noteq> [] \<and> (\<exists>n. ol ! 1 = format_line n ''- b'')
        \<and> ol ! 2 = [] \<and> nl ! 2 \<noteq> [] \<and> (\<exists>n. nl ! 2 = format_line n ''+ x''))"
proof -
  note t = row_count [OF sample_read, of sample_ndiff, unfolded sample_script sample_handled]
  then obtain nl ol where c: "compare_files sample_ndiff sample_world ''new.txt'' ''old.txt'' = Inr (nl, ol)"
    and l: "length nl = length (filter (\<lambda>l. startswith l CHR '' '') [''  a'', ''- b'', ''+ x'', ''  c''])
                    + length (filter (\<lambda>l. startswith l CHR ''-'') [''  a'', ''- b'', ''+ x'', ''  c''])
                    + length (filter (\<lambda>l. startswith l CHR ''+'') [''  a'', ''- b'', ''+ x'', ''  c''])"
      "length ol = length nl"
    and r: "\<forall>i<length [''  a'', ''- b'', ''+ x'', ''  c''].
             (nl ! i = [] \<longleftrightarrow> startswith ([''  a'', ''- b'', ''+ x'', ''  c''] ! i) CHR ''-'')
           \<and> (ol ! i = [] \<longleftrightarrow> startswith ([''  a'', ''- b'', ''+ x'', ''  c''] ! i) CHR ''+'')
           \<and> (nl ! i \<noteq> [] \<longrightarrow> (\<exists>n. nl ! i = format_line n ([''  a'', ''- b'', ''+ x'', ''  c''] ! i)))
           \<and> (ol ! i \<noteq> [] \<longrightarrow> (\<exists>n. ol ! i = format_line n ([''  a'', ''- b'', ''+ x'', ''  c''] ! i)))"
    by blast
  from r [THEN spec, of 1] have "nl ! 1 = [] \<and> ol ! 1 \<noteq> [] \<and> (\<exists>n. ol ! 1 = format_line n ''- b'')"
    by (simp add: startswith_def)
  moreover from r [THEN spec, of 2] have "ol ! 2 = [] \<and> nl ! 2 \<noteq> [] \<and> (\<exists>n. nl ! 2 = format_line n ''+ x'')"
    by (simp add: startswith_def)
  moreover from l have "length nl = 2 + 1 + 1 \<and> length ol = 4"
    by (simp add: startswith_def)
  ultimately show ?thesis
    using c sample_read
    apply (intro conjI)
      apply simp
     apply simp
    apply (rule exI [of _ nl], rule exI [of _ ol])
    apply simp
    done
qed

lemma compare_loop_foldl: "compare_loop diff s = foldl (\<lambda>s line. compare_step line s) s diff"
  by (induction diff arbitrary: s) simp_all

lemma compare_step_cases:
  "startswith line CHR '' '' \<Longrightarrow> compare_step line s =
     s\<lparr>new_lines := new_lines s @ [format_line (new_line_number s) line],
       old_lines := old_lines s @ [format_line (old_line_number s) line],
       new_line_number := new_line_number s + 1,
       old_line_number := old_line_number s + 1\<rparr>"
  "startswith line CHR ''-'' \<Longrightarrow> compare_step line s =
     s\<lparr>old_lines := old_lines s @ [format_line (old_line_number s) line],
       new_lines := new_lines s @ [[]],
       old_line_number := old_line_number s + 1\<rparr>"
  "startswith line CHR ''+'' \<Longrightarrow> compare_step line s =
     s\<lparr>new_lines := new_lines s @ [format_line (new_line_number s) line],
       old_lines := old_lines s @ [[]],
       new_line_number := new_line_number s + 1\<rparr>"
proof -
  show "startswith line CHR '' '' \<Longrightarrow> compare_step line s =
     s\<lparr>new_lines := new_lines s @ [format_line (new_line_number s) line],
       old_lines := old_lines s @ [format_line (old_line_number s) line],
       new_line_number := new_line_number s + 1,
       old_line_number := old_line_number s + 1\<rparr>"
    by (simp add: compare_step_def)
  show "startswith line CHR ''-'' \<Longrightarrow> compare_step line s =
     s\<lparr>old_lines := old_lines s @ [format_line (old_line_number s) line],
       new_lines := new_lines s @ [[]],
       old_line_number := old_line_number s + 1\<rparr>"
    using startswith_excl(2) [of line] by (simp add: compare_step_def)
  show "startswith line CHR ''+'' \<Longrightarrow> compare_step line s =
     s\<lparr>new_lines := new_lines s @ [format_line (new_line_number s) line],
       old_lines := old_lines s @ [[]],
       new_line_number := new_line_number s + 1\<rparr>"
    using startswith_excl(3) [of line] by (simp add: compare_step_def)
qed

text \<open>
  C4. Both counters start at 1 and both lists start empty; the loop applies
  \<open>compare_step\<close> to the lines of the edit script in their order. An unchanged line
  appends its numbered text to both sides and increments both counters; a deleted line
  appends its numbered text to the old side and a gap to the new side and increments the
  old counter only; an inserted line does the same with the sides exchanged. Hence row
  \<open>i\<close> carries, on each side that is not a gap, one plus the number of earlier operations
  of that side, followed by the text.
\<close>

theorem expansion_rule:
  fixes ndiff :: ndiff
  assumes "read_file w old_file = Inr old" and "read_file w new_file = Inr new"
  defines "ops \<equiv> filter handled (ndiff old new)"
  shows "old_line_number init_state = 1 \<and> new_line_number init_state = 1
       \<and> old_lines init_state = [] \<and> new_lines init_state = []
       \<and> (\<forall>diff. compare_diff diff =
             (new_lines (foldl (\<lambda>s line. compare_step line s) init_state diff),
              old_lines (foldl (\<lambda>s line. compare_step line s) init_state diff)))
       \<and> (\<forall>line s. startswith line CHR '' '' \<longrightarrow> compare_step line s =
             s\<lparr>new_lines := new_lines s @ [format_line (new_line_number s) line],
               old_lines := old_lines s @ [format_line (old_line_number s) line],
               new_line_number := new_line_number s + 1,
               old_line_number := old_line_number s + 1\<rparr>)
       \<and> (\<forall>line s. startswith line CHR ''-'' \<longrightarrow> compare_step line s =
             s\<lparr>old_lines := old_lines s @ [format_line (old_line_number s) line],
               new_lines := new_lines s @ [[]],
               old_line_number := old_line_number s + 1\<rparr>)
       \<and> (\<forall>line s. startswith line CHR ''+'' \<longrightarrow> compare_step line s =
             s\<lparr>new_lines := new_lines s @ [format_line (new_line_number s) line],
               old_lines := old_lines s @ [[]],
               new_line_number := new_line_number s + 1\<rparr>)
       \<and> (\<exists>nl ol. compare_files ndiff w new_file old_file = Inr (nl, ol)
            \<and> length nl = length ops \<and> length ol = length ops
            \<and> (\<forall>i<length ops.
                  (startswith (ops ! i) CHR '' '' \<longrightarrow>
                     nl ! i = format_line (1 + length (filter on_new (take i ops))) (ops ! i)
                   \<and> ol ! i = format_line (1 + length (filter on_old (take i ops))) (ops ! i))
                \<and> (startswith (ops ! i) CHR ''-'' \<longrightarrow>
                     ol ! i = format_line (1 + length (filter on_old (take i ops))) (ops ! i)
                   \<and> nl ! i = [])
                \<and> (startswith (ops ! i) CHR ''+'' \<longrightarrow>
                     nl ! i = format_line (1 + length (filter on_new (take i ops))) (ops ! i)
                   \<and> ol ! i = [])))"
proof -
  obtain nl ol where r: "compare_diff (ndiff old new) = (nl, ol)"
    by (cases "compare_diff (ndiff old new)")
  from assms(1,2) r have c: "compare_files ndiff w new_file old_file = Inr (nl, ol)"
    by (simp add: compare_files_read)
  have o: "ops = filter handled (ndiff old new)"
    by (simp add: ops_def)
  note n = compare_diff_nth [OF r o]
  have rows: "(startswith (ops ! i) CHR '' '' \<longrightarrow>
                     nl ! i = format_line (1 + length (filter on_new (take i ops))) (ops ! i)
                   \<and> ol ! i = format_line (1 + length (filter on_old (take i ops))) (ops ! i))
                \<and> (startswith (ops ! i) CHR ''-'' \<longrightarrow>
                     ol ! i = format_line (1 + length (filter on_old (take i ops))) (ops ! i)
                   \<and> nl ! i = [])
                \<and> (startswith (ops ! i) CHR ''+'' \<longrightarrow>
                     nl ! i = format_line (1 + length (filter on_new (take i ops))) (ops ! i)
                   \<and> ol ! i = [])"
    if "i < length ops" for i
  proof (intro conjI impI)
    assume u: "startswith (ops ! i) CHR '' ''"
    from n(3) [OF that] startswith_excl(1) [OF u]
    show "nl ! i = format_line (1 + length (filter on_new (take i ops))) (ops ! i)"
      by (simp add: new_entry_def)
    from n(4) [OF that] startswith_excl(1) [OF u]
    show "ol ! i = format_line (1 + length (filter on_old (take i ops))) (ops ! i)"
      by (simp add: old_entry_def)
  next
    assume d: "startswith (ops ! i) CHR ''-''"
    from n(4) [OF that] startswith_excl(2) [OF d]
    show "ol ! i = format_line (1 + length (filter on_old (take i ops))) (ops ! i)"
      by (simp add: old_entry_def)
    from n(3) [OF that] d show "nl ! i = []"
      by (simp add: new_entry_def)
  next
    assume a: "startswith (ops ! i) CHR ''+''"
    from n(3) [OF that] startswith_excl(3) [OF a]
    show "nl ! i = format_line (1 + length (filter on_new (take i ops))) (ops ! i)"
      by (simp add: new_entry_def)
    from n(4) [OF that] a show "ol ! i = []"
      by (simp add: old_entry_def)
  qed
  have last: "\<exists>nl ol. compare_files ndiff w new_file old_file = Inr (nl, ol)
            \<and> length nl = length ops \<and> length ol = length ops
            \<and> (\<forall>i<length ops.
                  (startswith (ops ! i) CHR '' '' \<longrightarrow>
                     nl ! i = format_line (1 + length (filter on_new (take i ops))) (ops ! i)
                   \<and> ol ! i = format_line (1 + length (filter on_old (take i ops))) (ops ! i))
                \<and> (startswith (ops ! i) CHR ''-'' \<longrightarrow>
                     ol ! i = format_line (1 + length (filter on_old (take i ops))) (ops ! i)
                   \<and> nl ! i = [])
                \<and> (startswith (ops ! i) CHR ''+'' \<longrightarrow>
                     nl ! i = format_line (1 + length (filter on_new (take i ops))) (ops ! i)
                   \<and> ol ! i = []))"
    apply (rule exI [of _ nl], rule exI [of _ ol])
    using c n(1,2) rows by simp
  have fold: "compare_diff diff =
             (new_lines (foldl (\<lambda>s line. compare_step line s) init_state diff),
              old_lines (foldl (\<lambda>s line. compare_step line s) init_state diff))" for diff
    by (simp add: compare_diff_def compare_loop_foldl Let_def)
  have init: "old_line_number init_state = 1 \<and> new_line_number init_state = 1
       \<and> old_lines init_state = [] \<and> new_lines init_state = []"
    by (simp add: init_state_def)
  show ?thesis
    apply (intro conjI allI impI)
    using init apply simp
    using init apply simp
    using init apply simp
    using init apply simp
    apply (rule fold)
    apply (erule compare_step_cases(1))
    apply (erule compare_step_cases(2))
    apply (erule compare_step_cases(3))
    apply (rule last)
    done
qed

theorem expansion_rule_witness:
  "read_file sample_world ''old.txt'' = Inr [''a'', ''b'', ''c'']
   \<and> read_file sample_world ''new.txt'' = Inr [''a'', ''x'', ''c'']
   \<and> (\<exists>nl ol. compare_files sample_ndiff sample_world ''new.txt'' ''old.txt'' = Inr (nl, ol)
        \<and> nl ! 0 = ''1 a'' \<and> ol ! 0 = ''1 a''
        \<and> nl ! 1 = [] \<and> ol ! 1 = ''2 b''
        \<and> nl ! 2 = ''2 x'' \<and> ol ! 2 = []
        \<and> nl ! 3 = ''3 c'' \<and> ol ! 3 = ''3 c'')
   \<and> startswith ''- b'' CHR ''-''
   \<and> compare_step ''- b'' init_state
       = \<lparr>old_lines = [''1 b''], new_lines = [[]], old_line_number = 2, new_line_number = 1\<rparr>"
proof -
  note t = expansion_rule [OF sample_read, of sample_ndiff, unfolded sample_script sample_handled]
  from t have "\<exists>nl ol. compare_files sample_ndiff sample_world ''new.txt'' ''old.txt'' = Inr (nl, ol)
            \<and> length nl = length [''  a'', ''- b'', ''+ x'', ''  c'']
            \<and> length ol = length [''  a'', ''- b'', ''+ x'', ''  c'']
            \<and> (\<forall>i<length [''  a'', ''- b'', ''+ x'', ''  c''].
                  (startswith ([''  a'', ''- b'', ''+ x'', ''  c''] ! i) CHR '' '' \<longrightarrow>
                     nl ! i = format_line (1 + length (filter on_new (take i [''  a'', ''- b'', ''+ x'', ''  c'']))) ([''  a'', ''- b'', ''+ x'', ''  c''] ! i)
                   \<and> ol ! i = format_line (1 + length (filter on_old (take i [''  a'', ''- b'', ''+ x'', ''  c'']))) ([''  a'', ''- b'', ''+ x'', ''  c''] ! i))
                \<and> (startswith ([''  a'', ''- b'', ''+ x'', ''  c''] ! i) CHR ''-'' \<longrightarrow>
                     ol ! i = format_line (1 + length (filter on_old (take i [''  a'', ''- b'', ''+ x'', ''  c'']))) ([''  a'', ''- b'', ''+ x'', ''  c''] ! i)
                   \<and> nl ! i = [])
                \<and> (startswith ([''  a'', ''- b'', ''+ x'', ''  c''] ! i) CHR ''+'' \<longrightarrow>
                     nl ! i = format_line (1 + length (filter on_new (take i [''  a'', ''- b'', ''+ x'', ''  c'']))) ([''  a'', ''- b'', ''+ x'', ''  c''] ! i)
                   \<and> ol ! i = []))"
    by (elim conjE)
  then obtain nl ol
    where c: "compare_files sample_ndiff sample_world ''new.txt'' ''old.txt'' = Inr (nl, ol)"
      and r: "\<forall>i<length [''  a'', ''- b'', ''+ x'', ''  c''].
                  (startswith ([''  a'', ''- b'', ''+ x'', ''  c''] ! i) CHR '' '' \<longrightarrow>
                     nl ! i = format_line (1 + length (filter on_new (take i [''  a'', ''- b'', ''+ x'', ''  c'']))) ([''  a'', ''- b'', ''+ x'', ''  c''] ! i)
                   \<and> ol ! i = format_line (1 + length (filter on_old (take i [''  a'', ''- b'', ''+ x'', ''  c'']))) ([''  a'', ''- b'', ''+ x'', ''  c''] ! i))
                \<and> (startswith ([''  a'', ''- b'', ''+ x'', ''  c''] ! i) CHR ''-'' \<longrightarrow>
                     ol ! i = format_line (1 + length (filter on_old (take i [''  a'', ''- b'', ''+ x'', ''  c'']))) ([''  a'', ''- b'', ''+ x'', ''  c''] ! i)
                   \<and> nl ! i = [])
                \<and> (startswith ([''  a'', ''- b'', ''+ x'', ''  c''] ! i) CHR ''+'' \<longrightarrow>
                     nl ! i = format_line (1 + length (filter on_new (take i [''  a'', ''- b'', ''+ x'', ''  c'']))) ([''  a'', ''- b'', ''+ x'', ''  c''] ! i)
                   \<and> ol ! i = [])"
    by blast
  note ev = startswith_def on_new_def on_old_def format_line_def rstrip_def is_space_def
    str_of_nat.simps digit_char_def
  from r [THEN spec, of 0] have r0: "nl ! 0 = ''1 a'' \<and> ol ! 0 = ''1 a''"
    by (simp add: ev)
  from r [THEN spec, of 1] have r1: "nl ! 1 = [] \<and> ol ! 1 = ''2 b''"
    by (simp add: ev)
  from r [THEN spec, of 2] have r2: "nl ! 2 = ''2 x'' \<and> ol ! 2 = []"
    by (simp add: ev)
  from r [THEN spec, of 3] have r3: "nl ! 3 = ''3 c'' \<and> ol ! 3 = ''3 c''"
    by (simp add: ev)
  have d: "startswith ''- b'' CHR ''-''"
    by (simp add: startswith_def)
  from t have "\<forall>line s. startswith line CHR ''-'' \<longrightarrow> compare_step line s =
             s\<lparr>old_lines := old_lines s @ [format_line (old_line_number s) line],
               new_lines := new_lines s @ [[]],
               old_line_number := old_line_number s + 1\<rparr>"
    by (elim conjE)
  with d have "compare_step ''- b'' init_state =
             init_state\<lparr>old_lines := old_lines init_state @ [format_line (old_line_number init_state) ''- b''],
               new_lines := new_lines init_state @ [[]],
               old_line_number := old_line_number init_state + 1\<rparr>"
    by blast
  then have s: "compare_step ''- b'' init_state
       = \<lparr>old_lines = [''1 b''], new_lines = [[]], old_line_number = 2, new_line_number = 1\<rparr>"
    by (simp add: init_state_def ev)
  show ?thesis
    apply (intro conjI)
        apply (rule sample_read(1))
       apply (rule sample_read(2))
      apply (rule exI [of _ nl], rule exI [of _ ol])
    using c r0 r1 r2 r3 apply simp
     apply (rule d)
    apply (rule s)
    done
qed

lemma take2_startswith:
  "take 2 l = [a, b] \<Longrightarrow> startswith l c \<longleftrightarrow> c = a"
  by (cases l) (auto simp: startswith_def)

lemma numbered_Nil: "numbered n [] = []"
  by (simp add: numbered_def)

lemma numbered_Cons: "numbered n (l # ls) = (str_of_nat n @ '' '' @ rstrip l) # numbered (Suc n) ls"
proof -
  have "[n..<n + length (l # ls)] = n # [Suc n..<Suc n + length ls]"
    by (subst upt_rec) simp
  then show ?thesis
    by (simp add: numbered_def)
qed

lemma restore_Cons:
  "restore (l # diff) which =
     (if take 2 l = ''  '' \<or> take 2 l = (if which = 1 then ''- '' else ''+ '')
      then drop 2 l # restore diff which else restore diff which)"
  by (simp add: restore_def Let_def)

lemma restore_Nil: "restore [] which = []"
  by (simp add: restore_def)

lemma well_tagged_Cons:
  "well_tagged (l # diff) \<longleftrightarrow>
     (take 2 l = ''  '' \<or> take 2 l = ''- '' \<or> take 2 l = ''+ '' \<or> take 2 l = ''? '') \<and> well_tagged diff"
  by (auto simp: well_tagged_def)

lemma loop_new_side:
  "well_tagged diff \<Longrightarrow>
   filter (\<lambda>e. e \<noteq> []) (new_lines (compare_loop diff s))
     = filter (\<lambda>e. e \<noteq> []) (new_lines s) @ numbered (new_line_number s) (restore diff 2)"
proof (induction diff arbitrary: s)
  case Nil
  show ?case by (simp add: restore_Nil numbered_Nil)
next
  case (Cons l diff)
  from Cons.prems have wt: "well_tagged diff"
    and tag: "take 2 l = ''  '' \<or> take 2 l = ''- '' \<or> take 2 l = ''+ '' \<or> take 2 l = ''? ''"
    by (simp_all add: well_tagged_Cons)
  note IH = Cons.IH [OF wt]
  from tag show ?case
  proof (elim disjE)
    assume t: "take 2 l = ''  ''"
    then show ?thesis
      by (simp add: IH compare_step_def take2_startswith [OF t] restore_Cons numbered_Cons
          format_line_def str_of_nat_nonempty)
  next
    assume t: "take 2 l = ''- ''"
    then show ?thesis
      by (simp add: IH compare_step_def take2_startswith [OF t] restore_Cons)
  next
    assume t: "take 2 l = ''+ ''"
    then show ?thesis
      by (simp add: IH compare_step_def take2_startswith [OF t] restore_Cons numbered_Cons
          format_line_def str_of_nat_nonempty)
  next
    assume t: "take 2 l = ''? ''"
    then show ?thesis
      by (simp add: IH compare_step_def take2_startswith [OF t] restore_Cons)
  qed
qed

lemma loop_old_side:
  "well_tagged diff \<Longrightarrow>
   filter (\<lambda>e. e \<noteq> []) (old_lines (compare_loop diff s))
     = filter (\<lambda>e. e \<noteq> []) (old_lines s) @ numbered (old_line_number s) (restore diff 1)"
proof (induction diff arbitrary: s)
  case Nil
  show ?case by (simp add: restore_Nil numbered_Nil)
next
  case (Cons l diff)
  from Cons.prems have wt: "well_tagged diff"
    and tag: "take 2 l = ''  '' \<or> take 2 l = ''- '' \<or> take 2 l = ''+ '' \<or> take 2 l = ''? ''"
    by (simp_all add: well_tagged_Cons)
  note IH = Cons.IH [OF wt]
  from tag show ?case
  proof (elim disjE)
    assume t: "take 2 l = ''  ''"
    then show ?thesis
      by (simp add: IH compare_step_def take2_startswith [OF t] restore_Cons numbered_Cons
          format_line_def str_of_nat_nonempty)
  next
    assume t: "take 2 l = ''- ''"
    then show ?thesis
      by (simp add: IH compare_step_def take2_startswith [OF t] restore_Cons numbered_Cons
          format_line_def str_of_nat_nonempty)
  next
    assume t: "take 2 l = ''+ ''"
    then show ?thesis
      by (simp add: IH compare_step_def take2_startswith [OF t] restore_Cons)
  next
    assume t: "take 2 l = ''? ''"
    then show ?thesis
      by (simp add: IH compare_step_def take2_startswith [OF t] restore_Cons)
  qed
qed

lemma split_line_entry: "split_line (str_of_nat n @ '' '' @ t) = Inr (str_of_nat n, t)"
proof -
  have a: "takeWhile (\<lambda>c. c \<noteq> CHR '' '') (str_of_nat n @ CHR '' '' # t) = str_of_nat n"
    using str_of_nat_no_space [of n] by (subst takeWhile_append2) auto
  have b: "dropWhile (\<lambda>c. c \<noteq> CHR '' '') (str_of_nat n @ CHR '' '' # t) = CHR '' '' # t"
    using str_of_nat_no_space [of n] by (subst dropWhile_append2) auto
  show ?thesis
    using a b by (simp add: split_line_def split1_def unpack2_def str_of_nat_nonempty)
qed

lemma split_line_numbered:
  "map split_line (numbered n ls) = map Inr (zip (map str_of_nat [n..<n + length ls]) (map rstrip ls))"
proof (induction ls arbitrary: n)
  case Nil
  show ?case by (simp add: numbered_Nil)
next
  case (Cons l ls)
  have u: "[n..<n + length (l # ls)] = n # [Suc n..<Suc n + length ls]"
    by (subst upt_rec) simp
  show ?case
    unfolding u using Cons.IH [of "Suc n"] split_line_entry [of n "rstrip l"]
    by (simp add: numbered_Cons)
qed

text \<open>
  C1. When both files are read and the edit script honours the contract of the diff
  primitive (tagged lines, \<open>restore\<close> gives back both inputs), the entries of the new
  side that are not gaps are, in row order, the lines of the new file, each stripped of its
  trailing whitespace and preceded by its 1-based number; the renderer splits them back
  into these numbers and these texts. The same holds for the old side and the old file.
\<close>

theorem reconstruction:
  fixes ndiff :: ndiff
  assumes "read_file w old_file = Inr old" and "read_file w new_file = Inr new"
    and "well_tagged (ndiff old new)"
    and "restore (ndiff old new) 1 = old" and "restore (ndiff old new) 2 = new"
  shows "\<exists>nl ol. compare_files ndiff w new_file old_file = Inr (nl, ol)
       \<and> filter (\<lambda>e. e \<noteq> []) nl = numbered 1 new
       \<and> filter (\<lambda>e. e \<noteq> []) ol = numbered 1 old
       \<and> map split_line (filter (\<lambda>e. e \<noteq> []) nl)
           = map Inr (zip (map str_of_nat [1..<1 + length new]) (map rstrip new))
       \<and> map split_line (filter (\<lambda>e. e \<noteq> []) ol)
           = map Inr (zip (map str_of_nat [1..<1 + length old]) (map rstrip old))"
proof -
  let ?s = "compare_loop (ndiff old new) init_state"
  have c: "compare_files ndiff w new_file old_file = Inr (new_lines ?s, old_lines ?s)"
    using assms(1,2) by (simp add: compare_files_read compare_diff_def Let_def)
  have n: "filter (\<lambda>e. e \<noteq> []) (new_lines ?s) = numbered 1 new"
    using loop_new_side [OF assms(3), of init_state] assms(5) by (simp add: init_state_def)
  have o: "filter (\<lambda>e. e \<noteq> []) (old_lines ?s) = numbered 1 old"
    using loop_old_side [OF assms(3), of init_state] assms(4) by (simp add: init_state_def)
  show ?thesis
    apply (rule exI [of _ "new_lines ?s"], rule exI [of _ "old_lines ?s"])
    apply (intro conjI)
        apply (rule c)
       apply (rule n)
      apply (rule o)
     apply (simp only: n split_line_numbered)
    apply (simp only: o split_line_numbered)
    done
qed

lemma sample_contract:
  "well_tagged (sample_ndiff [''a'', ''b'', ''c''] [''a'', ''x'', ''c''])"
  "restore (sample_ndiff [''a'', ''b'', ''c''] [''a'', ''x'', ''c'']) 1 = [''a'', ''b'', ''c'']"
  "restore (sample_ndiff [''a'', ''b'', ''c''] [''a'', ''x'', ''c'']) 2 = [''a'', ''x'', ''c'']"
  by (simp_all add: sample_script well_tagged_def restore_def)

lemma sample_numbered:
  "numbered 1 [''a'', ''x'', ''c''] = [''1 a'', ''2 x'', ''3 c'']"
  "numbered 1 [''a'', ''b'', ''c''] = [''1 a'', ''2 b'', ''3 c'']"
  by (simp_all add: numbered_Cons numbered_Nil rstrip_def is_space_def str_of_nat.simps digit_char_def)

theorem reconstruction_witness:
  "read_file sample_world ''old.txt'' = Inr [''a'', ''b'', ''c'']
   \<and> read_file sample_world ''new.txt'' = Inr [''a'', ''x'', ''c'']
   \<and> well_tagged (sample_ndiff [''a'', ''b'', ''c''] [''a'', ''x'', ''c''])
   \<and> restore (sample_ndiff [''a'', ''b'', ''c''] [''a'', ''x'', ''c'']) 1 = [''a'', ''b'', ''c'']
   \<and> restore (sample_ndiff [''a'', ''b'', ''c''] [''a'', ''x'', ''c'']) 2 = [''a'', ''x'', ''c'']
   \<and> (\<exists>nl ol. compare_files sample_ndiff sample_world ''new.txt'' ''old.txt'' = Inr (nl, ol)
        \<and> filter (\<lambda>e. e \<noteq> []) nl = [''1 a'', ''2 x'', ''3 c'']
        \<and> filter (\<lambda>e. e \<noteq> []) ol = [''1 a'', ''2 b'', ''3 c''])"
proof -
  from reconstruction [where ndiff = sample_ndiff, OF sample_read sample_contract]
  obtain nl ol where "compare_files sample_ndiff sample_world ''new.txt'' ''old.txt'' = Inr (nl, ol)"
    and "filter (\<lambda>e. e \<noteq> []) nl = numbered 1 [''a'', ''x'', ''c'']"
    and "filter (\<lambda>e. e \<noteq> []) ol = numbered 1 [''a'', ''b'', ''c'']"
    by blast
  then have "\<exists>nl ol. compare_files sample_ndiff sample_world ''new.txt'' ''old.txt'' = Inr (nl, ol)
        \<and> filter (\<lambda>e. e \<noteq> []) nl = [''1 a'', ''2 x'', ''3 c'']
        \<and> filter (\<lambda>e. e \<noteq> []) ol = [''1 a'', ''2 b'', ''3 c'']"
    unfolding sample_numbered by blast
  with sample_read sample_contract show ?thesis
    by (intro conjI)
qed

section \<open>Properties of the report renderer\<close>

lemma check_string_Inr: "check_string v = Inr v' \<Longrightarrow> v' = take 32767 v"
  by (simp add: check_string_def Let_def split: if_splits)

lemma take_empty_iff: "take 32767 v = [] \<longleftrightarrow> v = []"
  by simp

lemma write_row_Inr:
  assumes "write_row line_new line_old = Inr r"
  shows "\<exists>nn nc on oc.
           split_line line_new = Inr (nn, nc) \<and> split_line line_old = Inr (on, oc)
         \<and> new_number_cell r = \<lparr>cvalue = Str (take 32767 nn), centered = True, cfill = None\<rparr>
         \<and> new_content_cell r = \<lparr>cvalue = Str (take 32767 nc), centered = False,
               cfill = (if nc \<noteq> [] \<and> oc = [] then Some green_fill else None)\<rparr>
         \<and> old_number_cell r = \<lparr>cvalue = Str (take 32767 on), centered = True, cfill = None\<rparr>
         \<and> old_content_cell r = \<lparr>cvalue = Str (take 32767 oc), centered = False,
               cfill = (if oc \<noteq> [] \<and> nc = [] then Some red_fill else None)\<rparr>"
proof -
  from assms obtain nn nc where a: "split_line line_new = Inr (nn, nc)"
    by (cases "split_line line_new") (auto simp: write_row_def)
  from assms a obtain on oc where b: "split_line line_old = Inr (on, oc)"
    by (cases "split_line line_old") (auto simp: write_row_def)
  from assms a b obtain v1 where c1: "check_string nn = Inr v1"
    by (cases "check_string nn") (auto simp: write_row_def)
  from assms a b c1 obtain v2 where c2: "check_string nc = Inr v2"
    by (cases "check_string nc") (auto simp: write_row_def)
  from assms a b c1 c2 obtain v3 where c3: "check_string on = Inr v3"
    by (cases "check_string on") (auto simp: write_row_def)
  from assms a b c1 c2 c3 obtain v4 where c4: "check_string oc = Inr v4"
    by (cases "check_string oc") (auto simp: write_row_def)
  note v = check_string_Inr [OF c1] check_string_Inr [OF c2] check_string_Inr [OF c3]
    check_string_Inr [OF c4]
  from assms have "r = (let r = \<lparr>new_number_cell = \<lparr>cvalue = Str v1, centered = True, cfill = None\<rparr>,
                   new_content_cell = \<lparr>cvalue = Str v2, centered = False, cfill = None\<rparr>,
                   old_number_cell = \<lparr>cvalue = Str v3, centered = True, cfill = None\<rparr>,
                   old_content_cell = \<lparr>cvalue = Str v4, centered = False, cfill = None\<rparr>\<rparr>
          in if nc \<noteq> [] \<and> \<not> oc \<noteq> [] then
               r\<lparr>new_content_cell := (new_content_cell r)\<lparr>cfill := Some green_fill\<rparr>\<rparr>
             else if oc \<noteq> [] \<and> \<not> nc \<noteq> [] then
               r\<lparr>old_content_cell := (old_content_cell r)\<lparr>cfill := Some red_fill\<rparr>\<rparr>
             else r)"
    by (auto simp: write_row_def a b c1 c2 c3 c4 Let_def split: if_splits)
  then have "new_number_cell r = \<lparr>cvalue = Str (take 32767 nn), centered = True, cfill = None\<rparr>
         \<and> new_content_cell r = \<lparr>cvalue = Str (take 32767 nc), centered = False,
               cfill = (if nc \<noteq> [] \<and> oc = [] then Some green_fill else None)\<rparr>
         \<and> old_number_cell r = \<lparr>cvalue = Str (take 32767 on), centered = True, cfill = None\<rparr>
         \<and> old_content_cell r = \<lparr>cvalue = Str (take 32767 oc), centered = False,
               cfill = (if oc \<noteq> [] \<and> nc = [] then Some red_fill else None)\<rparr>"
    unfolding v by (simp add: Let_def)
  with a b show ?thesis
    by blast
qed

lemma write_rows_set:
  "write_rows ps = Inr rs \<Longrightarrow> r \<in> set rs \<Longrightarrow> \<exists>p\<in>set ps. write_row (fst p) (snd p) = Inr r"
proof (induction ps arbitrary: rs)
  case Nil
  then show ?case by simp
next
  case (Cons p ps)
  obtain a b where p: "p = (a, b)" by (cases p)
  from Cons.prems(1) p obtain r0 rs0 where h: "write_row a b = Inr r0" "write_rows ps = Inr rs0" "rs = r0 # rs0"
    by (auto split: sum.splits)
  show ?case
  proof (cases "r = r0")
    case True
    with h p show ?thesis by simp
  next
    case False
    with Cons.prems(2) h have "r \<in> set rs0" by simp
    from Cons.IH [OF h(2) this] show ?thesis by auto
  qed
qed

lemma write_rows_nth:
  "write_rows ps = Inr rs \<Longrightarrow>
   length rs = length ps \<and> (\<forall>i<length ps. write_row (fst (ps ! i)) (snd (ps ! i)) = Inr (rs ! i))"
proof (induction ps arbitrary: rs)
  case Nil
  then show ?case by simp
next
  case (Cons p ps)
  obtain a b where p: "p = (a, b)" by (cases p)
  from Cons.prems p obtain r0 rs0 where h: "write_row a b = Inr r0" "write_rows ps = Inr rs0"
    "rs = r0 # rs0"
    by (auto split: sum.splits)
  from Cons.IH [OF h(2)] have l: "length rs0 = length ps"
    and n: "\<forall>i<length ps. write_row (fst (ps ! i)) (snd (ps ! i)) = Inr (rs0 ! i)"
    by simp_all
  have "\<forall>i<length (p # ps). write_row (fst ((p # ps) ! i)) (snd ((p # ps) ! i)) = Inr (rs ! i)"
  proof (intro allI impI)
    fix i assume "i < length (p # ps)"
    then show "write_row (fst ((p # ps) ! i)) (snd ((p # ps) ! i)) = Inr (rs ! i)"
      using h n p by (cases i) simp_all
  qed
  with l h(3) show ?case
    by simp
qed

lemma create_excel_Inr:
  assumes "create_excel w nl ol output_file = Inr w'"
  shows "\<exists>rs. write_rows (zip nl ol) = Inr rs
           \<and> w' = w\<lparr>files := (files w)(output_file \<mapsto> Spreadsheet (finish_workbook rs))\<rparr>"
  using assms by (auto simp: create_excel_def save_def split: sum.splits if_splits)

text \<open>
  C3. In every row of a report that \<^verbatim>\<open>create_excel\<close> saves, the new-content cell is filled
  green exactly when the new content is non-empty and the old content is empty, the
  old-content cell is filled red exactly when the old content is non-empty and the new
  content is empty, no row has both fills, and no other fill is ever set.
\<close>

theorem highlight_exact:
  assumes "create_excel w nl ol output_file = Inr w'"
  shows "\<exists>wb. files w' output_file = Some (Spreadsheet wb)
       \<and> (\<forall>r\<in>set (rows wb). \<exists>nc oc.
             cvalue (new_content_cell r) = Str nc \<and> cvalue (old_content_cell r) = Str oc
           \<and> (cfill (new_content_cell r) = Some green_fill \<longleftrightarrow> nc \<noteq> [] \<and> oc = [])
           \<and> (cfill (old_content_cell r) = Some red_fill \<longleftrightarrow> oc \<noteq> [] \<and> nc = [])
           \<and> \<not> (cfill (new_content_cell r) = Some green_fill \<and> cfill (old_content_cell r) = Some red_fill)
           \<and> cfill (new_content_cell r) \<noteq> Some red_fill
           \<and> cfill (old_content_cell r) \<noteq> Some green_fill
           \<and> cfill (new_number_cell r) = None \<and> cfill (old_number_cell r) = None)"
proof -
  from create_excel_Inr [OF assms] obtain rs where rs: "write_rows (zip nl ol) = Inr rs"
    and w': "w' = w\<lparr>files := (files w)(output_file \<mapsto> Spreadsheet (finish_workbook rs))\<rparr>"
    by blast
  have row: "\<exists>nc oc.
             cvalue (new_content_cell r) = Str nc \<and> cvalue (old_content_cell r) = Str oc
           \<and> (cfill (new_content_cell r) = Some green_fill \<longleftrightarrow> nc \<noteq> [] \<and> oc = [])
           \<and> (cfill (old_content_cell r) = Some red_fill \<longleftrightarrow> oc \<noteq> [] \<and> nc = [])
           \<and> \<not> (cfill (new_content_cell r) = Some green_fill \<and> cfill (old_content_cell r) = Some red_fill)
           \<and> cfill (new_content_cell r) \<noteq> Some red_fill
           \<and> cfill (old_content_cell r) \<noteq> Some green_fill
           \<and> cfill (new_number_cell r) = None \<and> cfill (old_number_cell r) = None"
    if "r \<in> set rs" for r
  proof -
    from write_rows_set [OF rs that] obtain p where "write_row (fst p) (snd p) = Inr r"
      by blast
    from write_row_Inr [OF this] obtain nn nc on oc where
      "new_number_cell r = \<lparr>cvalue = Str (take 32767 nn), centered = True, cfill = None\<rparr>"
      "new_content_cell r = \<lparr>cvalue = Str (take 32767 nc), centered = False,
               cfill = (if nc \<noteq> [] \<and> oc = [] then Some green_fill else None)\<rparr>"
      "old_number_cell r = \<lparr>cvalue = Str (take 32767 on), centered = True, cfill = None\<rparr>"
      "old_content_cell r = \<lparr>cvalue = Str (take 32767 oc), centered = False,
               cfill = (if oc \<noteq> [] \<and> nc = [] then Some red_fill else None)\<rparr>"
      by blast
    then show ?thesis
      by (intro exI [of _ "take 32767 nc"] exI [of _ "take 32767 oc"]) simp
  qed
  show ?thesis
    apply (rule exI [of _ "finish_workbook rs"])
    using w' row by (simp add: finish_workbook_def)
qed

lemma sample_rows:
  "write_rows (zip [''1 a'', [], ''2 x'', ''3 c''] [''1 a'', ''2 b'', [], ''3 c'']) = Inr
     [\<lparr>new_number_cell = \<lparr>cvalue = Str ''1'', centered = True, cfill = None\<rparr>,
       new_content_cell = \<lparr>cvalue = Str ''a'', centered = False, cfill = None\<rparr>,
       old_number_cell = \<lparr>cvalue = Str ''1'', centered = True, cfill = None\<rparr>,
       old_content_cell = \<lparr>cvalue = Str ''a'', centered = False, cfill = None\<rparr>\<rparr>,
      \<lparr>new_number_cell = \<lparr>cvalue = Str [], centered = True, cfill = None\<rparr>,
       new_content_cell = \<lparr>cvalue = Str [], centered = False, cfill = None\<rparr>,
       old_number_cell = \<lparr>cvalue = Str ''2'', centered = True, cfill = None\<rparr>,
       old_content_cell = \<lparr>cvalue = Str ''b'', centered = False, cfill = Some red_fill\<rparr>\<rparr>,
      \<lparr>new_number_cell = \<lparr>cvalue = Str ''2'', centered = True, cfill = None\<rparr>,
       new_content_cell = \<lparr>cvalue = Str ''x'', centered = False, cfill = Some green_fill\<rparr>,
       old_number_cell = \<lparr>cvalue = Str [], centered = True, cfill = None\<rparr>,
       old_content_cell = \<lparr>cvalue = Str [], centered = False, cfill = None\<rparr>\<rparr>,
      \<lparr>new_number_cell = \<lparr>cvalue = Str ''3'', centered = True, cfill = None\<rparr>,
       new_content_cell = \<lparr>cvalue = Str ''c'', centered = False, cfill = None\<rparr>,
       old_number_cell = \<lparr>cvalue = Str ''3'', centered = True, cfill = None\<rparr>,
       old_content_cell = \<lparr>cvalue = Str ''c'', centered = False, cfill = None\<rparr>\<rparr>]"
  by (simp add: write_row_def split_line_def split1_def unpack2_def check_string_def
      illegal_character_def Let_def)

lemma sample_create_excel:
  "\<exists>w'. create_excel sample_world [''1 a'', [], ''2 x'', ''3 c''] [''1 a'', ''2 b'', [], ''3 c'']
          ''out.xlsx'' = Inr w'"
  by (simp add: create_excel_def sample_rows save_def sample_world_def del: zip_Cons_Cons)

theorem highlight_exact_witness:
  "\<exists>w'. create_excel sample_world [''1 a'', [], ''2 x'', ''3 c''] [''1 a'', ''2 b'', [], ''3 c'']
          ''out.xlsx'' = Inr w'
      \<and> (\<exists>wb. files w' ''out.xlsx'' = Some (Spreadsheet wb)
       \<and> (\<forall>r\<in>set (rows wb). \<exists>nc oc.
             cvalue (new_content_cell r) = Str nc \<and> cvalue (old_content_cell r) = Str oc
           \<and> (cfill (new_content_cell r) = Some green_fill \<longleftrightarrow> nc \<noteq> [] \<and> oc = [])
           \<and> (cfill (old_content_cell r) = Some red_fill \<longleftrightarrow> oc \<noteq> [] \<and> nc = [])
           \<and> \<not> (cfill (new_content_cell r) = Some green_fill \<and> cfill (old_content_cell r) = Some red_fill)
           \<and> cfill (new_content_cell r) \<noteq> Some red_fill
           \<and> cfill (old_content_cell r) \<noteq> Some green_fill
           \<and> cfill (new_number_cell r) = None \<and> cfill (old_number_cell r) = None))"
proof -
  from sample_create_excel obtain w'
    where e: "create_excel sample_world [''1 a'', [], ''2 x'', ''3 c''] [''1 a'', ''2 b'', [], ''3 c'']
          ''out.xlsx'' = Inr w'"
    by blast
  from e highlight_exact [OF e] show ?thesis
    by (intro exI [of _ w'] conjI)
qed

lemma split_line_gap: "split_line [] = Inr ([], [])"
  by (simp add: split_line_def)

lemma split_line_new_entry:
  "split_line (new_entry ops i) =
     (if startswith (ops ! i) CHR ''-'' then Inr ([], [])
      else Inr (str_of_nat (1 + length (filter on_new (take i ops))), rstrip (drop 2 (ops ! i))))"
  by (simp add: new_entry_def split_line_gap split_line_format)

lemma split_line_old_entry:
  "split_line (old_entry ops i) =
     (if startswith (ops ! i) CHR ''+'' then Inr ([], [])
      else Inr (str_of_nat (1 + length (filter on_old (take i ops))), rstrip (drop 2 (ops ! i))))"
  by (simp add: old_entry_def split_line_gap split_line_format)

text \<open>
  C10. Whenever the rows are written, a deleted or inserted line whose text is empty once
  its trailing whitespace is stripped gives a row without any fill: both content cells hold
  the empty string, as they would for a gap on both sides, and the fills test the content
  strings only.
\<close>

theorem blank_line_no_highlight:
  fixes ndiff :: ndiff
  assumes "read_file w old_file = Inr old" and "read_file w new_file = Inr new"
  defines "ops \<equiv> filter handled (ndiff old new)"
  shows "\<exists>nl ol. compare_files ndiff w new_file old_file = Inr (nl, ol)
       \<and> (\<forall>rs. write_rows (zip nl ol) = Inr rs \<longrightarrow>
              length rs = length ops
            \<and> create_excel w nl ol output_file = save w (finish_workbook rs) output_file
            \<and> rows (finish_workbook rs) = rs
            \<and> (\<forall>i<length ops.
                  (startswith (ops ! i) CHR ''-'' \<or> startswith (ops ! i) CHR ''+'')
                  \<and> rstrip (drop 2 (ops ! i)) = [] \<longrightarrow>
                    cvalue (new_content_cell (rs ! i)) = Str []
                  \<and> cvalue (old_content_cell (rs ! i)) = Str []
                  \<and> cfill (new_content_cell (rs ! i)) = None
                  \<and> cfill (old_content_cell (rs ! i)) = None))"
proof -
  obtain nl ol where r: "compare_diff (ndiff old new) = (nl, ol)"
    by (cases "compare_diff (ndiff old new)")
  from assms(1,2) r have c: "compare_files ndiff w new_file old_file = Inr (nl, ol)"
    by (simp add: compare_files_read)
  have o: "ops = filter handled (ndiff old new)"
    by (simp add: ops_def)
  note n = compare_diff_nth [OF r o]
  have len: "length (zip nl ol) = length ops"
    using n(1,2) by simp
  have nth: "zip nl ol ! i = (new_entry ops i, old_entry ops i)" if "i < length ops" for i
    using that n by simp
  have main: "length rs = length ops
            \<and> create_excel w nl ol output_file = save w (finish_workbook rs) output_file
            \<and> rows (finish_workbook rs) = rs
            \<and> (\<forall>i<length ops.
                  (startswith (ops ! i) CHR ''-'' \<or> startswith (ops ! i) CHR ''+'')
                  \<and> rstrip (drop 2 (ops ! i)) = [] \<longrightarrow>
                    cvalue (new_content_cell (rs ! i)) = Str []
                  \<and> cvalue (old_content_cell (rs ! i)) = Str []
                  \<and> cfill (new_content_cell (rs ! i)) = None
                  \<and> cfill (old_content_cell (rs ! i)) = None)"
    if rs: "write_rows (zip nl ol) = Inr rs" for rs
  proof -
    from write_rows_nth [OF rs] have l: "length rs = length (zip nl ol)"
      and w: "\<forall>i<length (zip nl ol). write_row (fst (zip nl ol ! i)) (snd (zip nl ol ! i)) = Inr (rs ! i)"
      by simp_all
    have blank: "cvalue (new_content_cell (rs ! i)) = Str []
             \<and> cvalue (old_content_cell (rs ! i)) = Str []
             \<and> cfill (new_content_cell (rs ! i)) = None
             \<and> cfill (old_content_cell (rs ! i)) = None"
      if i: "i < length ops"
        and k: "startswith (ops ! i) CHR ''-'' \<or> startswith (ops ! i) CHR ''+''"
        and e: "rstrip (drop 2 (ops ! i)) = []" for i
    proof -
      from i len have "i < length (zip nl ol)"
        by (simp only:)
      with w have "write_row (fst (zip nl ol ! i)) (snd (zip nl ol ! i)) = Inr (rs ! i)"
        by blast
      then have "write_row (new_entry ops i) (old_entry ops i) = Inr (rs ! i)"
        by (simp only: nth [OF i] fst_conv snd_conv)
      from write_row_Inr [OF this] obtain nn nc on oc where
        s: "split_line (new_entry ops i) = Inr (nn, nc)" "split_line (old_entry ops i) = Inr (on, oc)"
        and cells: "new_content_cell (rs ! i) = \<lparr>cvalue = Str (take 32767 nc), centered = False,
                 cfill = (if nc \<noteq> [] \<and> oc = [] then Some green_fill else None)\<rparr>"
          "old_content_cell (rs ! i) = \<lparr>cvalue = Str (take 32767 oc), centered = False,
                 cfill = (if oc \<noteq> [] \<and> nc = [] then Some red_fill else None)\<rparr>"
        by blast
      from s e have "nc = []" "oc = []"
        by (auto simp: split_line_new_entry split_line_old_entry split: if_splits)
      with cells show ?thesis
        by simp
    qed
    from l len have "length rs = length ops"
      by (simp only:)
    moreover from rs have "create_excel w nl ol output_file = save w (finish_workbook rs) output_file"
      by (simp add: create_excel_def)
    moreover have "rows (finish_workbook rs) = rs"
      by (simp add: finish_workbook_def)
    ultimately show ?thesis
      using blank by blast
  qed
  show ?thesis
    apply (rule exI [of _ nl], rule exI [of _ ol])
    using c main by blast
qed

lemma blank_read:
  "read_file blank_world ''old.txt'' = Inr [''a'', ''  '', ''c'']"
  "read_file blank_world ''new.txt'' = Inr [''a'', ''c'']"
  by (simp_all add: blank_world_def read_file_def)

lemma blank_script:
  "sample_ndiff [''a'', ''  '', ''c''] [''a'', ''c''] = [''  a'', ''-   '', ''  c'']"
  by (simp add: sample_ndiff_def Let_def)

lemma blank_handled:
  "filter handled [''  a'', ''-   '', ''  c''] = [''  a'', ''-   '', ''  c'']"
  by (simp add: handled_def startswith_def)

lemma blank_compare_files:
  "compare_files sample_ndiff blank_world ''new.txt'' ''old.txt''
     = Inr ([''1 a'', [], ''2 c''], [''1 a'', ''2 '', ''3 c''])"
  by (simp add: blank_world_def sample_ndiff_def compare_files_def read_file_def
      compare_diff_def init_state_def compare_step_def startswith_def format_line_def rstrip_def
      is_space_def str_of_nat.simps digit_char_def Let_def)

lemma blank_rows:
  "\<exists>rs. write_rows (zip [''1 a'', [], ''2 c''] [''1 a'', ''2 '', ''3 c'']) = Inr rs"
  by (simp add: write_row_def split_line_def split1_def unpack2_def check_string_def
      illegal_character_def Let_def)

theorem blank_line_no_highlight_witness:
  "read_file blank_world ''old.txt'' = Inr [''a'', ''  '', ''c'']
   \<and> read_file blank_world ''new.txt'' = Inr [''a'', ''c'']
   \<and> startswith ''-   '' CHR ''-'' \<and> rstrip (drop 2 ''-   '') = []
   \<and> (\<exists>nl ol rs. compare_files sample_ndiff blank_world ''new.txt'' ''old.txt'' = Inr (nl, ol)
        \<and> write_rows (zip nl ol) = Inr rs \<and> length rs = 3
        \<and> cfill (new_content_cell (rs ! 1)) = None
        \<and> cfill (old_content_cell (rs ! 1)) = None)"
proof -
  have d: "startswith ''-   '' CHR ''-''" and e: "rstrip (drop 2 ''-   '') = []"
    by (simp_all add: startswith_def rstrip_def is_space_def)
  from blank_rows obtain rs
    where rs: "write_rows (zip [''1 a'', [], ''2 c''] [''1 a'', ''2 '', ''3 c'']) = Inr rs"
    by blast
  note t = blank_line_no_highlight [OF blank_read, of sample_ndiff "''out.xlsx''",
      unfolded blank_script blank_handled blank_compare_files]
  then have "\<forall>rs. write_rows (zip [''1 a'', [], ''2 c''] [''1 a'', ''2 '', ''3 c'']) = Inr rs \<longrightarrow>
              length rs = length [''  a'', ''-   '', ''  c'']
            \<and> (\<forall>i<length [''  a'', ''-   '', ''  c''].
                  (startswith ([''  a'', ''-   '', ''  c''] ! i) CHR ''-''
                   \<or> startswith ([''  a'', ''-   '', ''  c''] ! i) CHR ''+'')
                  \<and> rstrip (drop 2 ([''  a'', ''-   '', ''  c''] ! i)) = [] \<longrightarrow>
                    cvalue (new_content_cell (rs ! i)) = Str []
                  \<and> cvalue (old_content_cell (rs ! i)) = Str []
                  \<and> cfill (new_content_cell (rs ! i)) = None
                  \<and> cfill (old_content_cell (rs ! i)) = None)"
    by blast
  with rs have l: "length rs = length [''  a'', ''-   '', ''  c'']"
    and b: "\<forall>i<length [''  a'', ''-   '', ''  c''].
                  (startswith ([''  a'', ''-   '', ''  c''] ! i) CHR ''-''
                   \<or> startswith ([''  a'', ''-   '', ''  c''] ! i) CHR ''+'')
                  \<and> rstrip (drop 2 ([''  a'', ''-   '', ''  c''] ! i)) = [] \<longrightarrow>
                    cvalue (new_content_cell (rs ! i)) = Str []
                  \<and> cvalue (old_content_cell (rs ! i)) = Str []
                  \<and> cfill (new_content_cell (rs ! i)) = None
                  \<and> cfill (old_content_cell (rs ! i)) = None"
    by blast+
  from b [THEN spec, of 1] d e
  have f: "cfill (new_content_cell (rs ! 1)) = None \<and> cfill (old_content_cell (rs ! 1)) = None"
    by simp
  have "\<exists>nl ol rs. compare_files sample_ndiff blank_world ''new.txt'' ''old.txt'' = Inr (nl, ol)
        \<and> write_rows (zip nl ol) = Inr rs \<and> length rs = 3
        \<and> cfill (new_content_cell (rs ! 1)) = None
        \<and> cfill (old_content_cell (rs ! 1)) = None"
    apply (rule exI [of _ "[''1 a'', [], ''2 c'']"], rule exI [of _ "[''1 a'', ''2 '', ''3 c'']"],
        rule exI [of _ rs])
    using blank_compare_files rs l f by simp
  with blank_read d e show ?thesis
    by (intro conjI)
qed

text \<open>
  C5. For the old file \<open>a, b, c\<close> and the new file \<open>a, x, c\<close> the diff primitive gives the
  script \<open>unchanged a, deleted b, inserted x, unchanged c\<close>. With it, \<^verbatim>\<open>compare_files\<close>
  returns four rows in this order, and the renderer writes them as: \<open>a\<close> numbered 1 on both
  sides without fill; \<open>b\<close> numbered 2 on the old side, filled red, with a gap on the new
  side; \<open>x\<close> numbered 2 on the new side, filled green, with a gap on the old side; \<open>c\<close>
  numbered 3 on both sides without fill.
\<close>

theorem mixed_case:
  fixes ndiff :: ndiff
  assumes "read_file w old_file = Inr [''a'', ''b'', ''c'']"
    and "read_file w new_file = Inr [''a'', ''x'', ''c'']"
    and "ndiff [''a'', ''b'', ''c''] [''a'', ''x'', ''c''] = [''  a'', ''- b'', ''+ x'', ''  c'']"
  shows "compare_files ndiff w new_file old_file
           = Inr ([''1 a'', [], ''2 x'', ''3 c''], [''1 a'', ''2 b'', [], ''3 c''])
       \<and> write_rows (zip [''1 a'', [], ''2 x'', ''3 c''] [''1 a'', ''2 b'', [], ''3 c'']) = Inr
     [\<lparr>new_number_cell = \<lparr>cvalue = Str ''1'', centered = True, cfill = None\<rparr>,
       new_content_cell = \<lparr>cvalue = Str ''a'', centered = False, cfill = None\<rparr>,
       old_number_cell = \<lparr>cvalue = Str ''1'', centered = True, cfill = None\<rparr>,
       old_content_cell = \<lparr>cvalue = Str ''a'', centered = False, cfill = None\<rparr>\<rparr>,
      \<lparr>new_number_cell = \<lparr>cvalue = Str [], centered = True, cfill = None\<rparr>,
       new_content_cell = \<lparr>cvalue = Str [], centered = False, cfill = None\<rparr>,
       old_number_cell = \<lparr>cvalue = Str ''2'', centered = True, cfill = None\<rparr>,
       old_content_cell = \<lparr>cvalue = Str ''b'', centered = False, cfill = Some red_fill\<rparr>\<rparr>,
      \<lparr>new_number_cell = \<lparr>cvalue = Str ''2'', centered = True, cfill = None\<rparr>,
       new_content_cell = \<lparr>cvalue = Str ''x'', centered = False, cfill = Some green_fill\<rparr>,
       old_number_cell = \<lparr>cvalue = Str [], centered = True, cfill = None\<rparr>,
       old_content_cell = \<lparr>cvalue = Str [], centered = False, cfill = None\<rparr>\<rparr>,
      \<lparr>new_number_cell = \<lparr>cvalue = Str ''3'', centered = True, cfill = None\<rparr>,
       new_content_cell = \<lparr>cvalue = Str ''c'', centered = False, cfill = None\<rparr>,
       old_number_cell = \<lparr>cvalue = Str ''3'', centered = True, cfill = None\<rparr>,
       old_content_cell = \<lparr>cvalue = Str ''c'', centered = False, cfill = None\<rparr>\<rparr>]"
proof -
  have "compare_diff [''  a'', ''- b'', ''+ x'', ''  c'']
          = ([''1 a'', [], ''2 x'', ''3 c''], [''1 a'', ''2 b'', [], ''3 c''])"
    by (simp add: compare_diff_def init_state_def compare_step_def startswith_def format_line_def
        rstrip_def is_space_def str_of_nat.simps digit_char_def Let_def)
  with assms have "compare_files ndiff w new_file old_file
           = Inr ([''1 a'', [], ''2 x'', ''3 c''], [''1 a'', ''2 b'', [], ''3 c''])"
    by (simp add: compare_files_read)
  then show ?thesis
    using sample_rows by (intro conjI)
qed

theorem mixed_case_witness:
  "read_file sample_world ''old.txt'' = Inr [''a'', ''b'', ''c'']
   \<and> read_file sample_world ''new.txt'' = Inr [''a'', ''x'', ''c'']
   \<and> sample_ndiff [''a'', ''b'', ''c''] [''a'', ''x'', ''c''] = [''  a'', ''- b'', ''+ x'', ''  c'']
   \<and> compare_files sample_ndiff sample_world ''new.txt'' ''old.txt''
        = Inr ([''1 a'', [], ''2 x'', ''3 c''], [''1 a'', ''2 b'', [], ''3 c''])"
  using mixed_case [where ndiff = sample_ndiff, OF sample_read sample_script]
    sample_read sample_script
  by (intro conjI) (elim conjE, assumption)+

subsection \<open>The float product\<close>

lemma bitlen_0: "bitlen 0 = 0"
  by (simp add: bitlen.simps)

lemma bitlen_pos: "0 < n \<Longrightarrow> bitlen n = Suc (bitlen (n div 2))"
  by (subst bitlen.simps) simp

lemma bitlen_bounds: "0 < n \<Longrightarrow> 2 ^ (bitlen n - 1) \<le> n \<and> n < 2 ^ bitlen n"
proof (induction n rule: bitlen.induct)
  case (1 n)
  show ?case
  proof (cases "n div 2 = 0")
    case True
    with 1(2) have "n = 1" by (simp add: div_eq_0_iff)
    then show ?thesis by (simp add: bitlen_pos bitlen_0)
  next
    case False
    then have pos: "0 < n div 2" by simp
    from 1(1) 1(2) pos have IH: "2 ^ (bitlen (n div 2) - 1) \<le> n div 2" "n div 2 < 2 ^ bitlen (n div 2)"
      by simp_all
    have b: "bitlen n = Suc (bitlen (n div 2))" using 1(2) by (rule bitlen_pos)
    have b1: "bitlen (n div 2) = Suc (bitlen (n div 2) - 1)"
      using pos by (simp add: bitlen_pos)
    have "2 ^ bitlen (n div 2) = 2 * 2 ^ (bitlen (n div 2) - 1)"
      by (subst b1) simp
    also have "\<dots> \<le> 2 * (n div 2)" using IH(1) by simp
    also have "\<dots> \<le> n" by simp
    finally have lo: "2 ^ bitlen (n div 2) \<le> n" .
    have "n < 2 * (n div 2) + 2" by presburger
    also have "\<dots> \<le> 2 * 2 ^ bitlen (n div 2)" using IH(2) by simp
    finally have hi: "n < 2 ^ Suc (bitlen (n div 2))" by simp
    from lo hi show ?thesis by (simp add: b)
  qed
qed

lemma round_half_even_err:
  "2 * (round_half_even p k * 2 ^ k) \<le> 2 * p + 2 ^ k
   \<and> 2 * p \<le> 2 * (round_half_even p k * 2 ^ k) + 2 ^ k"
proof -
  define q where "q = p div 2 ^ k"
  define r where "r = p mod 2 ^ k"
  have p: "p = q * 2 ^ k + r"
    unfolding q_def r_def by (rule div_mult_mod_eq [symmetric])
  have r: "r < 2 ^ k"
    by (simp add: r_def)
  have "round_half_even p k = q \<and> 2 * r \<le> 2 ^ k \<or> round_half_even p k = q + 1 \<and> 2 ^ k \<le> 2 * r"
    by (auto simp: round_half_even_def Let_def q_def r_def)
  then show ?thesis
  proof
    assume "round_half_even p k = q \<and> 2 * r \<le> 2 ^ k"
    then show ?thesis by (simp add: p)
  next
    assume "round_half_even p k = q + 1 \<and> 2 ^ k \<le> 2 * r"
    with r show ?thesis by (simp add: p algebra_simps)
  qed
qed

lemma round_half_even_0: "round_half_even p 0 = p"
  by (simp add: round_half_even_def)

lemma round53_small: "p < 2 ^ 53 \<Longrightarrow> round53 p = p"
proof (cases "p = 0")
  case True
  then show ?thesis by (simp add: round53_def bitlen_0 round_half_even_0 Let_def)
next
  case False
  assume "p < 2 ^ 53"
  from False have "2 ^ (bitlen p - 1) \<le> p" using bitlen_bounds [of p] by simp
  with \<open>p < 2 ^ 53\<close> have "(2::nat) ^ (bitlen p - 1) < 2 ^ 53" by linarith
  then have "bitlen p - 1 < 53" by (simp only: power_strict_increasing_iff [of 2] one_less_numeral_iff semiring_norm)
  then have "bitlen p - 53 = 0" by simp
  then show ?thesis by (simp add: round53_def round_half_even_0 Let_def)
qed

lemma round53_err:
  "2 ^ 53 * round53 p \<le> 2 ^ 53 * p + p \<and> 2 ^ 53 * p \<le> 2 ^ 53 * round53 p + p"
proof (cases "bitlen p - 53 = 0")
  case True
  then show ?thesis by (simp add: round53_def round_half_even_0 Let_def)
next
  case False
  define k where "k = bitlen p - 53"
  from False have k: "bitlen p - 1 = k + 52" by (simp add: k_def)
  from False have "0 < p" by (cases "p = 0") (simp_all add: bitlen_0)
  then have "2 ^ (k + 52) \<le> p" using bitlen_bounds [of p] k by simp
  then have big: "2 ^ 52 * 2 ^ k \<le> p" by (simp add: power_add mult.commute)
  have R: "round53 p = round_half_even p k * 2 ^ k"
    by (simp add: round53_def k_def Let_def)
  from round_half_even_err [of p k]
  have "2 * round53 p \<le> 2 * p + 2 ^ k" "2 * p \<le> 2 * round53 p + 2 ^ k"
    by (simp_all add: R)
  with big show ?thesis
    by simp
qed

lemma bitlen_unique:
  assumes "2 ^ b \<le> n" and "n < 2 ^ Suc b"
  shows "bitlen n = Suc b"
proof -
  from assms(1) have pos: "0 < n"
    by (metis less_le_trans zero_less_numeral zero_less_power)
  from bitlen_bounds [OF pos] have lo: "2 ^ (bitlen n - 1) \<le> n" and hi: "n < 2 ^ bitlen n"
    by simp_all
  from lo assms(2) have "(2::nat) ^ (bitlen n - 1) < 2 ^ Suc b"
    by (rule le_less_trans)
  then have 1: "bitlen n - 1 < Suc b"
    by (simp only: power_strict_increasing_iff [of 2] one_less_numeral_iff semiring_norm)
  from assms(1) hi have "(2::nat) ^ b < 2 ^ bitlen n"
    by (rule le_less_trans)
  then have 2: "b < bitlen n"
    by (simp only: power_strict_increasing_iff [of 2] one_less_numeral_iff semiring_norm)
  from 1 2 show ?thesis
    by simp
qed

lemma bitlen_6: "bitlen 32425917317067570 = 55"
  by (rule bitlen_unique [of 54, simplified])  simp_all

lemma round53_6: "round53 32425917317067570 = 32425917317067568"
  by (simp add: round53_def bitlen_6 round_half_even_def Let_def)

lemma times_1_2_6: "times_1_2 6 = 8106479329266892 / 2 ^ 50"
  by (simp add: times_1_2_def round53_small round53_6)

lemma times_1_2_error:
  assumes "m < 2 ^ 53"
  shows "\<bar>times_1_2 m - of_nat m * 1.2\<bar> \<le> of_nat m * 1.2 / 2 ^ 52"
proof -
  define R where "R = round53 (m * 5404319552844595)"
  define x :: rat where "x = of_nat R"
  define y :: rat where "y = of_nat m"
  have t: "times_1_2 m = x / 4503599627370496"
    using assms by (simp add: times_1_2_def round53_small R_def x_def)
  from round53_err [of "m * 5404319552844595"]
  have "9007199254740992 * R \<le> 9007199254740992 * (m * 5404319552844595) + m * 5404319552844595"
    "9007199254740992 * (m * 5404319552844595) \<le> 9007199254740992 * R + m * 5404319552844595"
    by (simp_all add: R_def)
  then have "(of_nat (9007199254740992 * R) :: rat)
      \<le> of_nat (9007199254740992 * (m * 5404319552844595) + m * 5404319552844595)"
    "(of_nat (9007199254740992 * (m * 5404319552844595)) :: rat)
      \<le> of_nat (9007199254740992 * R + m * 5404319552844595)"
    by (simp_all only: of_nat_le_iff)
  then have a: "9007199254740992 * x \<le> 9007199254740992 * (y * 5404319552844595) + y * 5404319552844595"
    and b: "9007199254740992 * (y * 5404319552844595) \<le> 9007199254740992 * x + y * 5404319552844595"
    by (simp_all add: x_def y_def)
  have y0: "0 \<le> y" by (simp add: y_def)
  have 1: "x / 4503599627370496 - y * (6 / 5) \<le> y * (6 / 5) / 4503599627370496"
    using a y0 by (simp add: field_simps)
  have 2: "- (y * (6 / 5) / 4503599627370496) \<le> x / 4503599627370496 - y * (6 / 5)"
    using b y0 by (simp add: field_simps)
  from 1 2 have "\<bar>x / 4503599627370496 - y * (6 / 5)\<bar> \<le> y * (6 / 5) / 4503599627370496"
    by (simp only: abs_le_iff) simp
  then show ?thesis
    by (simp add: t y_def)
qed

subsection \<open>Column widths\<close>

lemma text_max_Nil: "text_max m [] = m"
  by (simp add: text_max_def)

lemma text_max_Cons:
  "text_max m (c # cs) = text_max (case cvalue c of Str s \<Rightarrow> max m (length s) | _ \<Rightarrow> m) cs"
  by (simp add: text_max_def)

lemma measure_cell_cases:
  "measure_cell column ws c =
     (case cvalue c of Str s \<Rightarrow> ws[column - 1 := max (ws ! (column - 1)) (length s)] | _ \<Rightarrow> ws)"
  by (simp add: measure_cell_def len_def split: cell_value.splits)

lemma foldl_measure_cell:
  "column - 1 < length ws \<Longrightarrow>
   foldl (measure_cell column) ws cs = ws[column - 1 := text_max (ws ! (column - 1)) cs]"
proof (induction cs arbitrary: ws)
  case Nil
  show ?case by (simp add: text_max_Nil)
next
  case (Cons c cs)
  show ?case
  proof (cases "cvalue c")
    case (Str s)
    let ?ws = "ws[column - 1 := max (ws ! (column - 1)) (length s)]"
    have "column - 1 < length ?ws" using Cons.prems by simp
    from Cons.IH [OF this] Cons.prems Str show ?thesis
      by (simp add: measure_cell_cases text_max_Cons)
  next
    case (Num n)
    with Cons.IH [OF Cons.prems] show ?thesis
      by (simp add: measure_cell_cases text_max_Cons)
  next
    case NoValue
    with Cons.IH [OF Cons.prems] show ?thesis
      by (simp add: measure_cell_cases text_max_Cons)
  qed
qed

lemma text_max_ge: "m \<le> text_max m cs"
proof (induction cs arbitrary: m)
  case Nil
  show ?case by (simp add: text_max_Nil)
next
  case (Cons c cs)
  show ?case
  proof (cases "cvalue c")
    case (Str s)
    have "max m (length s) \<le> text_max (max m (length s)) cs" by (rule Cons.IH)
    with Str show ?thesis by (simp add: text_max_Cons)
  next
    case (Num n)
    with Cons.IH [of m] show ?thesis by (simp add: text_max_Cons)
  next
    case NoValue
    with Cons.IH [of m] show ?thesis by (simp add: text_max_Cons)
  qed
qed

lemma text_max_bound:
  "c \<in> set cs \<Longrightarrow> cvalue c = Str s \<Longrightarrow> length s \<le> text_max m cs"
proof (induction cs arbitrary: m)
  case Nil
  then show ?case by simp
next
  case (Cons d cs)
  let ?m = "case cvalue d of Str t \<Rightarrow> max m (length t) | _ \<Rightarrow> m"
  show ?case
  proof (cases "c = d")
    case True
    with Cons.prems(2) have "length s \<le> ?m" by simp
    also have "?m \<le> text_max ?m cs" by (rule text_max_ge)
    finally show ?thesis by (simp add: text_max_Cons)
  next
    case False
    with Cons.prems have "c \<in> set cs" by simp
    from Cons.IH [OF this Cons.prems(2), of ?m] show ?thesis
      by (simp add: text_max_Cons)
  qed
qed

lemma text_max_attained:
  "text_max m cs = m \<or> (\<exists>c\<in>set cs. \<exists>s. cvalue c = Str s \<and> length s = text_max m cs)"
proof (induction cs arbitrary: m)
  case Nil
  show ?case by (simp add: text_max_Nil)
next
  case (Cons d cs)
  let ?m = "case cvalue d of Str t \<Rightarrow> max m (length t) | _ \<Rightarrow> m"
  have t: "text_max m (d # cs) = text_max ?m cs" by (simp add: text_max_Cons)
  from Cons.IH [of ?m]
  consider (same) "text_max ?m cs = ?m"
    | (later) "\<exists>c\<in>set cs. \<exists>s. cvalue c = Str s \<and> length s = text_max ?m cs"
    by blast
  then show ?case
  proof cases
    case same
    show ?thesis
    proof (cases "cvalue d")
      case (Str s)
      with same t show ?thesis by (auto simp: max_def)
    next
      case (Num n)
      with same t show ?thesis by simp
    next
      case NoValue
      with same t show ?thesis by simp
    qed
  next
    case later
    with t show ?thesis by auto
  qed
qed

lemma max_text_length_text_max: "max_text_length (text_max 0 cs) cs"
proof -
  have "list_all (\<lambda>c. case cvalue c of Str s \<Rightarrow> length s \<le> text_max 0 cs | _ \<Rightarrow> True) cs"
    by (auto simp: list_all_iff text_max_bound split: cell_value.splits)
  moreover have "text_max 0 cs = 0
      \<or> list_ex (\<lambda>c. case cvalue c of Str s \<Rightarrow> length s = text_max 0 cs | _ \<Rightarrow> False) cs"
  proof (cases "text_max 0 cs = 0")
    case True
    then show ?thesis by simp
  next
    case False
    with text_max_attained [of 0 cs] obtain c s where "c \<in> set cs" "cvalue c = Str s"
      "length s = text_max 0 cs"
      by blast
    then have "\<exists>c\<in>set cs. case cvalue c of Str s \<Rightarrow> length s = text_max 0 cs | _ \<Rightarrow> False"
      by (intro bexI [of _ c]) simp_all
    then show ?thesis by (simp add: list_ex_iff)
  qed
  ultimately show ?thesis
    by (simp add: max_text_length_def)
qed

lemma measure_columns_eq:
  "measure_columns rs =
     [text_max 0 (map new_number_cell rs), text_max 0 (map new_content_cell rs),
      text_max 0 (map old_number_cell rs), text_max 0 (map old_content_cell rs)]"
  by (simp add: measure_columns_def ws_columns_def foldl_measure_cell text_max_Nil)

text \<open>
  C7, as the code has it. The width of each of the four columns is the Python float
  \<^verbatim>\<open>width * 1.2\<close>, where \<open>width\<close> is the greatest length of a text value stored in the
  cells of that column (0 when there is none): no text cell is longer, and the bound is
  reached unless it is 0. The float is the product of that length and the float nearest to
  1.2, rounded to the nearest float; it differs from 1.2 times the length by at most that
  product divided by \<open>2 ^ 52\<close>. A cell whose value has no length (a number, an empty cell) raises a
  TypeError that the loop catches: it leaves the widths as they are, and the computation
  goes on to the end. The workbook that \<^verbatim>\<open>create_excel\<close> saves carries these widths.
\<close>

theorem column_width_rounded:
  "(\<exists>m1 m2 m3 m4.
        measure_columns rs = [m1, m2, m3, m4]
      \<and> widths (finish_workbook rs) = [times_1_2 m1, times_1_2 m2, times_1_2 m3, times_1_2 m4]
      \<and> max_text_length m1 (map new_number_cell rs)
      \<and> max_text_length m2 (map new_content_cell rs)
      \<and> max_text_length m3 (map old_number_cell rs)
      \<and> max_text_length m4 (map old_content_cell rs))
   \<and> (\<forall>m<2 ^ 53. \<bar>times_1_2 m - of_nat m * 1.2\<bar> \<le> of_nat m * 1.2 / 2 ^ 52)
   \<and> (\<forall>column column_widths c e.
        len (cvalue c) = Inl e \<longrightarrow> measure_cell column column_widths c = column_widths)
   \<and> (\<forall>n. len (Num n) = Inl TypeError) \<and> len NoValue = Inl TypeError
   \<and> (create_excel w nl ol output_file = Inr w' \<longrightarrow>
        (\<exists>rs'. write_rows (zip nl ol) = Inr rs'
           \<and> files w' output_file = Some (Spreadsheet (finish_workbook rs'))))"
proof -
  have a: "\<exists>m1 m2 m3 m4.
        measure_columns rs = [m1, m2, m3, m4]
      \<and> widths (finish_workbook rs) = [times_1_2 m1, times_1_2 m2, times_1_2 m3, times_1_2 m4]
      \<and> max_text_length m1 (map new_number_cell rs)
      \<and> max_text_length m2 (map new_content_cell rs)
      \<and> max_text_length m3 (map old_number_cell rs)
      \<and> max_text_length m4 (map old_content_cell rs)"
    apply (rule exI [of _ "text_max 0 (map new_number_cell rs)"])
    apply (rule exI [of _ "text_max 0 (map new_content_cell rs)"])
    apply (rule exI [of _ "text_max 0 (map old_number_cell rs)"])
    apply (rule exI [of _ "text_max 0 (map old_content_cell rs)"])
    apply (simp add: measure_columns_eq finish_workbook_def max_text_length_text_max)
    done
  have f: "\<forall>m<2 ^ 53. \<bar>times_1_2 m - of_nat m * 1.2\<bar> \<le> of_nat m * 1.2 / 2 ^ 52"
    by (intro allI impI) (rule times_1_2_error)
  have b: "measure_cell column column_widths c = column_widths" if "len (cvalue c) = Inl e"
    for column column_widths c e
    using that by (simp add: measure_cell_def)
  have c: "len (Num n) = Inl TypeError" for n
    by (simp add: len_def)
  have d: "len NoValue = Inl TypeError"
    by (simp add: len_def)
  have e: "\<exists>rs'. write_rows (zip nl ol) = Inr rs'
           \<and> files w' output_file = Some (Spreadsheet (finish_workbook rs'))"
    if "create_excel w nl ol output_file = Inr w'"
    using create_excel_Inr [OF that] by auto
  from a f b c d e show ?thesis
    by blast
qed

lemma round53_2: "round53 10808639105689190 = 10808639105689190"
proof -
  have "bitlen 10808639105689190 = 54"
    by (rule bitlen_unique [of 53, simplified]) simp_all
  then show ?thesis
    by (simp add: round53_def round_half_even_def Let_def)
qed

lemma round53_5: "round53 27021597764222975 = 27021597764222976"
proof -
  have "bitlen 27021597764222975 = 55"
    by (rule bitlen_unique [of 54, simplified]) simp_all
  then show ?thesis
    by (simp add: round53_def round_half_even_def Let_def)
qed

lemma times_1_2_values:
  "times_1_2 0 = 0" "times_1_2 2 = 5404319552844595 / 2 ^ 51" "times_1_2 5 = 6"
  by (simp_all add: times_1_2_def round53_small round53_2 round53_5)

theorem column_width_rounded_witness:
  "len (cvalue \<lparr>cvalue = Num 7, centered = True, cfill = None\<rparr>) = Inl TypeError
   \<and> measure_cell 3 [2, 5, 0, 0] \<lparr>cvalue = Num 7, centered = True, cfill = None\<rparr> = [2, 5, 0, 0]
   \<and> widths (finish_workbook
        [\<lparr>new_number_cell = \<lparr>cvalue = Str ''12'', centered = True, cfill = None\<rparr>,
          new_content_cell = \<lparr>cvalue = Str ''hello'', centered = False, cfill = None\<rparr>,
          old_number_cell = \<lparr>cvalue = Num 7, centered = True, cfill = None\<rparr>,
          old_content_cell = \<lparr>cvalue = NoValue, centered = False, cfill = None\<rparr>\<rparr>,
         \<lparr>new_number_cell = \<lparr>cvalue = Str ''3'', centered = True, cfill = None\<rparr>,
          new_content_cell = \<lparr>cvalue = Str ''hi'', centered = False, cfill = None\<rparr>,
          old_number_cell = \<lparr>cvalue = Str [], centered = True, cfill = None\<rparr>,
          old_content_cell = \<lparr>cvalue = Str [], centered = False, cfill = None\<rparr>\<rparr>])
       = [5404319552844595 / 2 ^ 51, 6, 0, 0]
   \<and> (6::nat) < 2 ^ 53
   \<and> \<bar>times_1_2 6 - of_nat 6 * 1.2\<bar> \<le> of_nat 6 * 1.2 / 2 ^ 52
   \<and> (\<exists>w'. create_excel sample_world [''1 a'', [], ''2 x'', ''3 c''] [''1 a'', ''2 b'', [], ''3 c'']
              ''out.xlsx'' = Inr w'
         \<and> (\<exists>rs'. files w' ''out.xlsx'' = Some (Spreadsheet (finish_workbook rs'))))"
proof -
  let ?rs = "[\<lparr>new_number_cell = \<lparr>cvalue = Str ''12'', centered = True, cfill = None\<rparr>,
          new_content_cell = \<lparr>cvalue = Str ''hello'', centered = False, cfill = None\<rparr>,
          old_number_cell = \<lparr>cvalue = Num 7, centered = True, cfill = None\<rparr>,
          old_content_cell = \<lparr>cvalue = NoValue, centered = False, cfill = None\<rparr>\<rparr>,
         \<lparr>new_number_cell = \<lparr>cvalue = Str ''3'', centered = True, cfill = None\<rparr>,
          new_content_cell = \<lparr>cvalue = Str ''hi'', centered = False, cfill = None\<rparr>,
          old_number_cell = \<lparr>cvalue = Str [], centered = True, cfill = None\<rparr>,
          old_content_cell = \<lparr>cvalue = Str [], centered = False, cfill = None\<rparr>\<rparr>]"
  from sample_create_excel obtain w'
    where e: "create_excel sample_world [''1 a'', [], ''2 x'', ''3 c''] [''1 a'', ''2 b'', [], ''3 c'']
          ''out.xlsx'' = Inr w'"
    by blast
  note t = column_width_rounded [of ?rs sample_world "[''1 a'', [], ''2 x'', ''3 c'']"
      "[''1 a'', ''2 b'', [], ''3 c'']" "''out.xlsx''" w']
  have l: "len (cvalue \<lparr>cvalue = Num 7, centered = True, cfill = None\<rparr>) = Inl TypeError"
    using t by simp
  from t l have s: "measure_cell 3 [2, 5, 0, 0] \<lparr>cvalue = Num 7, centered = True, cfill = None\<rparr>
      = [2, 5, 0, 0]"
    by blast
  have m: "measure_columns ?rs = [2, 5, 0, 0]"
    by (simp add: measure_columns_def ws_columns_def measure_cell_def len_def)
  from t obtain m1 m2 m3 m4 where "measure_columns ?rs = [m1, m2, m3, m4]"
    and v: "widths (finish_workbook ?rs) = [times_1_2 m1, times_1_2 m2, times_1_2 m3, times_1_2 m4]"
    by blast
  with m have "m1 = 2" "m2 = 5" "m3 = 0" "m4 = 0"
    by simp_all
  with v have x: "widths (finish_workbook ?rs) = [5404319552844595 / 2 ^ 51, 6, 0, 0]"
    by (simp only: times_1_2_values)
  have six: "(6::nat) < 2 ^ 53"
    by simp
  from t have "\<forall>m<2 ^ 53. \<bar>times_1_2 m - of_nat m * 1.2\<bar> \<le> of_nat m * 1.2 / 2 ^ 52"
    by (elim conjE)
  with six have z: "\<bar>times_1_2 6 - of_nat 6 * 1.2\<bar> \<le> of_nat 6 * 1.2 / 2 ^ 52"
    by blast
  from t e have "\<exists>rs'. files w' ''out.xlsx'' = Some (Spreadsheet (finish_workbook rs'))"
    by blast
  with e have y: "\<exists>w'. create_excel sample_world [''1 a'', [], ''2 x'', ''3 c''] [''1 a'', ''2 b'', [], ''3 c'']
              ''out.xlsx'' = Inr w'
         \<and> (\<exists>rs'. files w' ''out.xlsx'' = Some (Spreadsheet (finish_workbook rs')))"
    by blast
  from l s x six z y show ?thesis
    by (intro conjI)
qed

text \<open>
  C7 as stated fails: the width is not the exact product. A row whose two sides are the
  line \<open>abcdef\<close> gives content columns of length 6, and their width is the float
  7.199999999999999, the rational \<open>8106479329266892 / 2 ^ 50\<close>, not 6 times 1.2.
\<close>

theorem width_not_exact_product:
  "write_rows (zip [''1 abcdef''] [''1 abcdef'']) = Inr
     [\<lparr>new_number_cell = \<lparr>cvalue = Str ''1'', centered = True, cfill = None\<rparr>,
       new_content_cell = \<lparr>cvalue = Str ''abcdef'', centered = False, cfill = None\<rparr>,
       old_number_cell = \<lparr>cvalue = Str ''1'', centered = True, cfill = None\<rparr>,
       old_content_cell = \<lparr>cvalue = Str ''abcdef'', centered = False, cfill = None\<rparr>\<rparr>]
   \<and> measure_columns
     [\<lparr>new_number_cell = \<lparr>cvalue = Str ''1'', centered = True, cfill = None\<rparr>,
       new_content_cell = \<lparr>cvalue = Str ''abcdef'', centered = False, cfill = None\<rparr>,
       old_number_cell = \<lparr>cvalue = Str ''1'', centered = True, cfill = None\<rparr>,
       old_content_cell = \<lparr>cvalue = Str ''abcdef'', centered = False, cfill = None\<rparr>\<rparr>]
     = [1, 6, 1, 6]
   \<and> widths (finish_workbook
     [\<lparr>new_number_cell = \<lparr>cvalue = Str ''1'', centered = True, cfill = None\<rparr>,
       new_content_cell = \<lparr>cvalue = Str ''abcdef'', centered = False, cfill = None\<rparr>,
       old_number_cell = \<lparr>cvalue = Str ''1'', centered = True, cfill = None\<rparr>,
       old_content_cell = \<lparr>cvalue = Str ''abcdef'', centered = False, cfill = None\<rparr>\<rparr>]) ! 1
     = 8106479329266892 / 2 ^ 50
   \<and> widths (finish_workbook
     [\<lparr>new_number_cell = \<lparr>cvalue = Str ''1'', centered = True, cfill = None\<rparr>,
       new_content_cell = \<lparr>cvalue = Str ''abcdef'', centered = False, cfill = None\<rparr>,
       old_number_cell = \<lparr>cvalue = Str ''1'', centered = True, cfill = None\<rparr>,
       old_content_cell = \<lparr>cvalue = Str ''abcdef'', centered = False, cfill = None\<rparr>\<rparr>]) ! 1
     \<noteq> 6 * 1.2"
proof -
  let ?rs = "[\<lparr>new_number_cell = \<lparr>cvalue = Str ''1'', centered = True, cfill = None\<rparr>,
       new_content_cell = \<lparr>cvalue = Str ''abcdef'', centered = False, cfill = None\<rparr>,
       old_number_cell = \<lparr>cvalue = Str ''1'', centered = True, cfill = None\<rparr>,
       old_content_cell = \<lparr>cvalue = Str ''abcdef'', centered = False, cfill = None\<rparr>\<rparr>]"
  have w: "write_rows (zip [''1 abcdef''] [''1 abcdef'']) = Inr ?rs"
    by (simp add: write_row_def split_line_def split1_def unpack2_def check_string_def
        illegal_character_def Let_def)
  have m: "measure_columns ?rs = [1, 6, 1, 6]"
    by (simp add: measure_columns_def ws_columns_def measure_cell_def len_def)
  have v: "widths (finish_workbook ?rs) ! 1 = 8106479329266892 / 2 ^ 50"
    by (simp add: finish_workbook_def m times_1_2_6)
  have n: "(8106479329266892 / 2 ^ 50 :: rat) \<noteq> 6 * 1.2"
    by simp
  from w m v n show ?thesis
    by (simp only:) simp
qed

section \<open>Properties of the entry point\<close>

lemma main_unfold:
  "main ndiff w (l1 # l2 # output_file # rest) =
     (case compare_files ndiff w (strip_quotes l1) (strip_quotes l2) of
        Inl e \<Rightarrow> (Inl e, w)
      | Inr (nl, ol) \<Rightarrow>
          (case create_excel w nl ol output_file of
             Inl e \<Rightarrow> (Inl e, w)
           | Inr w' \<Rightarrow>
               (Inr (''Comparison Excel file '' @ [CHR 0x27] @ output_file @ [CHR 0x27]
                     @ '' created successfully.''), w')))"
  by (simp add: main_def input_def Let_def)

lemma read_file_Inl:
  "read_file w p = Inl e \<Longrightarrow> e = FileNotFoundError \<or> e = UnicodeDecodeError"
  by (auto simp: read_file_def split: option.splits file_content.splits)

lemma compare_files_Inl:
  "read_file w old_file = Inl e \<Longrightarrow> compare_files ndiff w new_file old_file = Inl e"
  "read_file w old_file = Inr old \<Longrightarrow> read_file w new_file = Inl e \<Longrightarrow>
   compare_files ndiff w new_file old_file = Inl e"
  by (simp_all add: compare_files_def)

text \<open>
  C8. When reading the old or the new file fails (the path names no file, or a file that
  does not decode as text), \<^verbatim>\<open>compare_files\<close> ends with that read error, \<^verbatim>\<open>main\<close> ends
  with the same error, and the files are exactly as before the run: no output was written.
\<close>

theorem read_error_aborts:
  assumes "(\<exists>e. read_file w (strip_quotes l1) = Inl e) \<or> (\<exists>e. read_file w (strip_quotes l2) = Inl e)"
  shows "\<exists>e. main ndiff w (l1 # l2 # output_file # rest) = (Inl e, w)
       \<and> compare_files ndiff w (strip_quotes l1) (strip_quotes l2) = Inl e
       \<and> (read_file w (strip_quotes l1) = Inl e \<or> read_file w (strip_quotes l2) = Inl e)
       \<and> (e = FileNotFoundError \<or> e = UnicodeDecodeError)
       \<and> files (snd (main ndiff w (l1 # l2 # output_file # rest))) = files w"
proof (cases "read_file w (strip_quotes l2)")
  case (Inl e)
  then have c: "compare_files ndiff w (strip_quotes l1) (strip_quotes l2) = Inl e"
    by (rule compare_files_Inl(1))
  then have m: "main ndiff w (l1 # l2 # output_file # rest) = (Inl e, w)"
    by (simp add: main_unfold)
  from Inl c m read_file_Inl [OF Inl] show ?thesis
    by (intro exI [of _ e]) simp
next
  case (Inr old)
  with assms obtain e where e: "read_file w (strip_quotes l1) = Inl e"
    by auto
  from Inr e have c: "compare_files ndiff w (strip_quotes l1) (strip_quotes l2) = Inl e"
    by (rule compare_files_Inl(2))
  then have m: "main ndiff w (l1 # l2 # output_file # rest) = (Inl e, w)"
    by (simp add: main_unfold)
  from e c m read_file_Inl [OF e] show ?thesis
    by (intro exI [of _ e]) simp
qed

lemma sample_missing: "read_file sample_world ''missing.txt'' = Inl FileNotFoundError"
  by (simp add: read_file_def sample_world_def)

lemma strip_quotes_plain:
  "strip_quotes ''new.txt'' = ''new.txt''" "strip_quotes ''old.txt'' = ''old.txt''"
  "strip_quotes ''missing.txt'' = ''missing.txt''"
  by (simp_all add: strip_quotes_def dquote_def)

theorem read_error_aborts_witness:
  "read_file sample_world (strip_quotes ''missing.txt'') = Inl FileNotFoundError
   \<and> main sample_ndiff sample_world [''new.txt'', ''missing.txt'', ''out.xlsx'']
       = (Inl FileNotFoundError, sample_world)
   \<and> files (snd (main sample_ndiff sample_world [''new.txt'', ''missing.txt'', ''out.xlsx'']))
        ''out.xlsx'' = None"
proof -
  have h: "read_file sample_world (strip_quotes ''missing.txt'') = Inl FileNotFoundError"
    by (simp add: strip_quotes_plain sample_missing)
  then have "(\<exists>e. read_file sample_world (strip_quotes ''new.txt'') = Inl e)
      \<or> (\<exists>e. read_file sample_world (strip_quotes ''missing.txt'') = Inl e)"
    by blast
  from read_error_aborts [OF this, of sample_ndiff "''out.xlsx''" "[]"]
  obtain e where m: "main sample_ndiff sample_world [''new.txt'', ''missing.txt'', ''out.xlsx'']
        = (Inl e, sample_world)"
    and r: "read_file sample_world (strip_quotes ''new.txt'') = Inl e
        \<or> read_file sample_world (strip_quotes ''missing.txt'') = Inl e"
    and f: "files (snd (main sample_ndiff sample_world [''new.txt'', ''missing.txt'', ''out.xlsx'']))
        = files sample_world"
    by blast
  from r have "e = FileNotFoundError"
    by (simp add: strip_quotes_plain sample_missing sample_read)
  with m f h show ?thesis
    by (simp add: sample_world_def)
qed

lemma dropWhile_quotes:
  "set qs \<subseteq> {dquote} \<Longrightarrow> dropWhile (\<lambda>c. c = dquote) (qs @ s) = dropWhile (\<lambda>c. c = dquote) s"
  by (induction qs) auto

lemma dropWhile_all_quotes:
  "set qs \<subseteq> {dquote} \<Longrightarrow> dropWhile (\<lambda>c. c = dquote) qs = []"
  by (induction qs) auto

lemma strip_quotes_surround:
  assumes "set qa \<subseteq> {dquote}" and "set qb \<subseteq> {dquote}"
  shows "strip_quotes (qa @ s @ qb) = strip_quotes s"
proof -
  let ?d = "dropWhile (\<lambda>c. c = dquote)"
  have rb: "set (rev qb) \<subseteq> {dquote}" using assms(2) by simp
  have a: "?d (qa @ s @ qb) = ?d (s @ qb)"
    using assms(1) by (rule dropWhile_quotes)
  show ?thesis
  proof (cases "set s \<subseteq> {dquote}")
    case True
    then have "set (s @ qb) \<subseteq> {dquote}" using assms(2) by simp
    then have "?d (s @ qb) = []" by (rule dropWhile_all_quotes)
    with a have 1: "?d (qa @ s @ qb) = []" by (simp only:)
    from True have 2: "?d s = []" by (rule dropWhile_all_quotes)
    show ?thesis
      unfolding strip_quotes_def by (simp only: 1 2)
  next
    case False
    then obtain c where "c \<in> set s" "\<not> c = dquote" by auto
    then have "?d (s @ qb) = ?d s @ qb"
      by (rule dropWhile_append1)
    with a have "rev (?d (qa @ s @ qb)) = rev qb @ rev (?d s)" by simp
    then have "?d (rev (?d (qa @ s @ qb))) = ?d (rev (?d s))"
      using dropWhile_quotes [OF rb, of "rev (?d s)"] by (simp only:)
    then show ?thesis
      unfolding strip_quotes_def by (simp only:)
  qed
qed

lemma strip_quotes_ends:
  "strip_quotes s = [] \<or> (hd (strip_quotes s) \<noteq> dquote \<and> last (strip_quotes s) \<noteq> dquote)"
proof -
  define u where "u = dropWhile (\<lambda>c. c = dquote) s"
  define r where "r = rev u"
  define t where "t = dropWhile (\<lambda>c. c = dquote) r"
  have st: "strip_quotes s = rev t"
    by (simp add: strip_quotes_def t_def r_def u_def)
  show ?thesis
  proof (cases "t = []")
    case True
    then show ?thesis by (simp add: st)
  next
    case False
    have h: "hd t \<noteq> dquote"
      using False hd_dropWhile [of "\<lambda>c. c = dquote" r] unfolding t_def by blast
    have ne: "u \<noteq> []"
    proof
      assume "u = []"
      then have "t = []" by (simp add: t_def r_def)
      with False show False by contradiction
    qed
    have hs: "hd u \<noteq> dquote"
      using ne hd_dropWhile [of "\<lambda>c. c = dquote" s] unfolding u_def by blast
    have "takeWhile (\<lambda>c. c = dquote) r @ t = r"
      unfolding t_def by (rule takeWhile_dropWhile_id)
    moreover have "last (takeWhile (\<lambda>c. c = dquote) r @ t) = last t"
      using False by (rule last_appendR)
    ultimately have "last t = last r"
      by (simp only:)
    also have "last r = hd u"
      unfolding r_def using ne by (simp add: last_rev)
    finally have lt: "last t \<noteq> dquote" using hs by simp
    have a: "hd (rev t) = last t" using False by (simp add: hd_rev)
    have b: "last (rev t) = hd t" using False by (simp add: last_rev)
    show ?thesis
      unfolding st a b using h lt by blast
  qed
qed

lemma strip_quotes_fixed:
  assumes "t = [] \<or> (hd t \<noteq> dquote \<and> last t \<noteq> dquote)"
  shows "strip_quotes t = t"
proof (cases "t = []")
  case True
  then show ?thesis by (simp add: strip_quotes_def)
next
  case False
  with assms have h: "hd t \<noteq> dquote" and l: "last t \<noteq> dquote" by simp_all
  from False h have 1: "dropWhile (\<lambda>c. c = dquote) t = t"
    by (cases t) simp_all
  from False l have "hd (rev t) \<noteq> dquote" by (simp add: hd_rev)
  with False have 2: "dropWhile (\<lambda>c. c = dquote) (rev t) = rev t"
    by (cases "rev t") simp_all
  show ?thesis
    unfolding strip_quotes_def by (simp only: 1 2 rev_rev_ident)
qed

lemma strip_quotes_idem: "strip_quotes (strip_quotes s) = strip_quotes s"
  using strip_quotes_ends [of s] by (rule strip_quotes_fixed)

lemma strip_quotes_quoted:
  "strip_quotes (dquote # ''new.txt'' @ [dquote]) = ''new.txt''"
  "strip_quotes (dquote # ''old.txt'' @ [dquote]) = ''old.txt''"
  "strip_quotes (dquote # ''out.xlsx'' @ [dquote]) = ''out.xlsx''"
  by (simp_all add: strip_quotes_def dquote_def)

lemma sample_can_create: "can_create sample_world path"
  by (simp add: sample_world_def)

lemma sample_main:
  "main sample_ndiff sample_world (l1 # l2 # output_file # rest) =
     (Inr (''Comparison Excel file '' @ [CHR 0x27] @ output_file @ [CHR 0x27]
           @ '' created successfully.''),
      sample_world\<lparr>files := (files sample_world)(output_file \<mapsto> Spreadsheet (finish_workbook
        [\<lparr>new_number_cell = \<lparr>cvalue = Str ''1'', centered = True, cfill = None\<rparr>,
       new_content_cell = \<lparr>cvalue = Str ''a'', centered = False, cfill = None\<rparr>,
       old_number_cell = \<lparr>cvalue = Str ''1'', centered = True, cfill = None\<rparr>,
       old_content_cell = \<lparr>cvalue = Str ''a'', centered = False, cfill = None\<rparr>\<rparr>,
      \<lparr>new_number_cell = \<lparr>cvalue = Str [], centered = True, cfill = None\<rparr>,
       new_content_cell = \<lparr>cvalue = Str [], centered = False, cfill = None\<rparr>,
       old_number_cell = \<lparr>cvalue = Str ''2'', centered = True, cfill = None\<rparr>,
       old_content_cell = \<lparr>cvalue = Str ''b'', centered = False, cfill = Some red_fill\<rparr>\<rparr>,
      \<lparr>new_number_cell = \<lparr>cvalue = Str ''2'', centered = True, cfill = None\<rparr>,
       new_content_cell = \<lparr>cvalue = Str ''x'', centered = False, cfill = Some green_fill\<rparr>,
       old_number_cell = \<lparr>cvalue = Str [], centered = True, cfill = None\<rparr>,
       old_content_cell = \<lparr>cvalue = Str [], centered = False, cfill = None\<rparr>\<rparr>,
      \<lparr>new_number_cell = \<lparr>cvalue = Str ''3'', centered = True, cfill = None\<rparr>,
       new_content_cell = \<lparr>cvalue = Str ''c'', centered = False, cfill = None\<rparr>,
       old_number_cell = \<lparr>cvalue = Str ''3'', centered = True, cfill = None\<rparr>,
       old_content_cell = \<lparr>cvalue = Str ''c'', centered = False, cfill = None\<rparr>\<rparr>]))\<rparr>)"
  if "strip_quotes l1 = ''new.txt''" and "strip_quotes l2 = ''old.txt''"
  using that sample_rows
  by (simp add: main_unfold sample_compare_files create_excel_def save_def sample_can_create
      del: zip_Cons_Cons)

text \<open>
  C6, as the code has it. The two input paths are stripped of their leading and trailing
  double quotes before they are used for reading: \<^verbatim>\<open>main\<close> passes the stripped strings to
  \<^verbatim>\<open>compare_files\<close>, a stripped string neither begins nor ends with a double quote, and
  quotes put around an input path do not change the run. The output name is the third line
  as it was entered.
\<close>

theorem input_paths_stripped:
  "(set qa \<subseteq> {dquote} \<and> set qb \<subseteq> {dquote} \<and> set qc \<subseteq> {dquote} \<and> set qd \<subseteq> {dquote} \<longrightarrow>
      main ndiff w ((qa @ l1 @ qb) # (qc @ l2 @ qd) # output_file # rest)
        = main ndiff w (l1 # l2 # output_file # rest))
   \<and> main ndiff w (l1 # l2 # output_file # rest)
        = main ndiff w (strip_quotes l1 # strip_quotes l2 # output_file # rest)
   \<and> (strip_quotes l1 = [] \<or> (hd (strip_quotes l1) \<noteq> dquote \<and> last (strip_quotes l1) \<noteq> dquote))
   \<and> (strip_quotes l2 = [] \<or> (hd (strip_quotes l2) \<noteq> dquote \<and> last (strip_quotes l2) \<noteq> dquote))
   \<and> (\<forall>e. compare_files ndiff w (strip_quotes l1) (strip_quotes l2) = Inl e \<longrightarrow>
          main ndiff w (l1 # l2 # output_file # rest) = (Inl e, w))
   \<and> (\<forall>nl ol. compare_files ndiff w (strip_quotes l1) (strip_quotes l2) = Inr (nl, ol) \<longrightarrow>
          main ndiff w (l1 # l2 # output_file # rest) =
            (case create_excel w nl ol output_file of
               Inl e \<Rightarrow> (Inl e, w)
             | Inr w' \<Rightarrow>
                 (Inr (''Comparison Excel file '' @ [CHR 0x27] @ output_file @ [CHR 0x27]
                       @ '' created successfully.''), w')))"
proof -
  have a: "main ndiff w ((qa @ l1 @ qb) # (qc @ l2 @ qd) # output_file # rest)
        = main ndiff w (l1 # l2 # output_file # rest)"
    if "set qa \<subseteq> {dquote} \<and> set qb \<subseteq> {dquote} \<and> set qc \<subseteq> {dquote} \<and> set qd \<subseteq> {dquote}"
    using that by (simp add: main_unfold strip_quotes_surround)
  have b: "main ndiff w (l1 # l2 # output_file # rest)
        = main ndiff w (strip_quotes l1 # strip_quotes l2 # output_file # rest)"
    by (simp add: main_unfold strip_quotes_idem)
  have c: "main ndiff w (l1 # l2 # output_file # rest) = (Inl e, w)"
    if "compare_files ndiff w (strip_quotes l1) (strip_quotes l2) = Inl e" for e
    using that by (simp add: main_unfold)
  have d: "main ndiff w (l1 # l2 # output_file # rest) =
            (case create_excel w nl ol output_file of
               Inl e \<Rightarrow> (Inl e, w)
             | Inr w' \<Rightarrow>
                 (Inr (''Comparison Excel file '' @ [CHR 0x27] @ output_file @ [CHR 0x27]
                       @ '' created successfully.''), w'))"
    if "compare_files ndiff w (strip_quotes l1) (strip_quotes l2) = Inr (nl, ol)" for nl ol
    using that by (simp add: main_unfold)
  show ?thesis
    apply (intro conjI impI allI)
         apply (erule a)
        apply (rule b)
       apply (rule strip_quotes_ends)
      apply (rule strip_quotes_ends)
     apply (erule c)
    apply (erule d)
    done
qed

theorem input_paths_stripped_witness:
  "set [dquote] \<subseteq> {dquote}
   \<and> main sample_ndiff sample_world
         [[dquote] @ ''new.txt'' @ [dquote], [dquote] @ ''old.txt'' @ [dquote], ''out.xlsx'']
       = main sample_ndiff sample_world [''new.txt'', ''old.txt'', ''out.xlsx'']
   \<and> compare_files sample_ndiff sample_world (strip_quotes ''new.txt'') (strip_quotes ''old.txt'')
       = Inr ([''1 a'', [], ''2 x'', ''3 c''], [''1 a'', ''2 b'', [], ''3 c''])
   \<and> main sample_ndiff sample_world [''new.txt'', ''old.txt'', ''out.xlsx'']
       = (case create_excel sample_world [''1 a'', [], ''2 x'', ''3 c''] [''1 a'', ''2 b'', [], ''3 c'']
                 ''out.xlsx'' of
               Inl e \<Rightarrow> (Inl e, sample_world)
             | Inr w' \<Rightarrow>
                 (Inr (''Comparison Excel file '' @ [CHR 0x27] @ ''out.xlsx'' @ [CHR 0x27]
                       @ '' created successfully.''), w'))"
proof -
  note t = input_paths_stripped [of "[dquote]" "[dquote]" "[dquote]" "[dquote]" sample_ndiff
      sample_world "''new.txt''" "''old.txt''" "''out.xlsx''" "[]"]
  have q: "set [dquote] \<subseteq> {dquote}"
    by simp
  with t have 1: "main sample_ndiff sample_world
         [[dquote] @ ''new.txt'' @ [dquote], [dquote] @ ''old.txt'' @ [dquote], ''out.xlsx'']
       = main sample_ndiff sample_world [''new.txt'', ''old.txt'', ''out.xlsx'']"
    by blast
  have 2: "compare_files sample_ndiff sample_world (strip_quotes ''new.txt'') (strip_quotes ''old.txt'')
       = Inr ([''1 a'', [], ''2 x'', ''3 c''], [''1 a'', ''2 b'', [], ''3 c''])"
    by (simp only: strip_quotes_plain sample_compare_files)
  with t have 3: "main sample_ndiff sample_world [''new.txt'', ''old.txt'', ''out.xlsx'']
       = (case create_excel sample_world [''1 a'', [], ''2 x'', ''3 c''] [''1 a'', ''2 b'', [], ''3 c'']
                 ''out.xlsx'' of
               Inl e \<Rightarrow> (Inl e, sample_world)
             | Inr w' \<Rightarrow>
                 (Inr (''Comparison Excel file '' @ [CHR 0x27] @ ''out.xlsx'' @ [CHR 0x27]
                       @ '' created successfully.''), w'))"
    by blast
  from q 1 2 3 show ?thesis
    by (intro conjI)
qed

text \<open>
  C6 as stated fails for the output name: with all three lines entered in double quotes the
  run succeeds, the report is saved under the name that still has its quotes, and nothing
  is saved under the stripped name.
\<close>

theorem output_name_not_stripped:
  "fst (main sample_ndiff sample_world
          [dquote # ''new.txt'' @ [dquote], dquote # ''old.txt'' @ [dquote],
           dquote # ''out.xlsx'' @ [dquote]])
     = Inr (''Comparison Excel file '' @ [CHR 0x27] @ (dquote # ''out.xlsx'' @ [dquote])
            @ [CHR 0x27] @ '' created successfully.'')
   \<and> strip_quotes (dquote # ''out.xlsx'' @ [dquote]) = ''out.xlsx''
   \<and> files (snd (main sample_ndiff sample_world
          [dquote # ''new.txt'' @ [dquote], dquote # ''old.txt'' @ [dquote],
           dquote # ''out.xlsx'' @ [dquote]])) ''out.xlsx'' = None
   \<and> files (snd (main sample_ndiff sample_world
          [dquote # ''new.txt'' @ [dquote], dquote # ''old.txt'' @ [dquote],
           dquote # ''out.xlsx'' @ [dquote]])) (dquote # ''out.xlsx'' @ [dquote]) \<noteq> None"
proof -
  note m = sample_main [OF strip_quotes_quoted(1,2), of "dquote # ''out.xlsx'' @ [dquote]" "[]"]
  have f: "files sample_world ''out.xlsx'' = None"
    by (simp add: sample_world_def)
  have ne: "dquote # ''out.xlsx'' @ [dquote] \<noteq> ''out.xlsx''"
    by simp
  show ?thesis
    unfolding m strip_quotes_quoted(3) using f ne by simp
qed

end
